theory Spec2Isabelle
  imports Main
begin

unbundle bit_operations_syntax

section \<open>PolyASM: a shallow embedding of polyasm.py\<close>

text \<open>
  The assembler is a single Python module. Its functions are embedded one by one, under
  their own names. Conventions of the embedding:
  \<^item> Python's unbounded integers are \<open>int\<close>.
  \<^item> A Python \<open>str\<close> is a \<open>string\<close>; a \<open>char\<close> stands for the code point of the
    same number, so the embedding covers the strings whose code points are below 256.
  \<^item> An exception is a value \<open>Inl e\<close> of the sum type \<open>error + 'a\<close>; the text of
    the message is not kept. \<open>AsmError\<close> is the assembler's own exception,
    \<open>ValueError\<close> and \<open>IndexError\<close> are the interpreter's.
  \<^item> Logging and the debug flag \<open>g_debug\<close> have no effect on any result and are left out.
\<close>

datatype error = AsmError | ValueError | IndexError

subsection \<open>The string and integer built-ins the assembler calls\<close>

text \<open>\<open>str.isspace\<close> on one character, which \<open>str.strip()\<close> and \<open>str.split()\<close> use.\<close>

definition py_isspace :: "char \<Rightarrow> bool" where
  "py_isspace c =
     (let n = (of_char c :: nat)
      in (9 \<le> n \<and> n \<le> 13) \<or> (28 \<le> n \<and> n \<le> 32) \<or> n = 133 \<or> n = 160)"

text \<open>\<open>s.strip()\<close>.\<close>

definition py_strip :: "string \<Rightarrow> string" where
  "py_strip s = rev (dropWhile py_isspace (rev (dropWhile py_isspace s)))"

text \<open>\<open>s.split()\<close>: the maximal runs of non-whitespace characters, in order.\<close>

fun split_from :: "string \<Rightarrow> string \<Rightarrow> string list" where
  "split_from cur [] = (if cur = [] then [] else [rev cur])"
| "split_from cur (c # cs) =
     (if py_isspace c then (if cur = [] then split_from [] cs else rev cur # split_from [] cs)
      else split_from (c # cur) cs)"

definition py_split :: "string \<Rightarrow> string list" where
  "py_split s = split_from [] s"

text \<open>\<open>s.lower()\<close>, one character at a time.\<close>

definition py_lower_char :: "char \<Rightarrow> char" where
  "py_lower_char c =
     (let n = (of_char c :: nat)
      in if (65 \<le> n \<and> n \<le> 90) \<or> (192 \<le> n \<and> n \<le> 222 \<and> n \<noteq> 215)
         then char_of (n + 32) else c)"

definition py_lower :: "string \<Rightarrow> string" where
  "py_lower s = map py_lower_char s"

definition py_startswith :: "string \<Rightarrow> string \<Rightarrow> bool" where
  "py_startswith s p = (take (length p) s = p)"

definition py_endswith :: "string \<Rightarrow> string \<Rightarrow> bool" where
  "py_endswith s p = (length p \<le> length s \<and> drop (length s - length p) s = p)"

text \<open>\<open>s.replace(c, "")\<close> for a one-character \<open>c\<close>.\<close>

definition py_remove :: "char \<Rightarrow> string \<Rightarrow> string" where
  "py_remove c s = filter (\<lambda>d. d \<noteq> c) s"

text \<open>
  \<open>int(s, base)\<close> for the bases 2, 10 and 16. The interpreter skips whitespace at both
  ends (a smaller set than \<open>str.isspace\<close>), reads an optional sign, then an optional
  \<open>0b\<close> or \<open>0x\<close> when the base is 2 or 16 (one underscore may follow it), then digits
  with single underscores between them. In base 10 a literal of more than 4300 digits is
  refused. Any other text is a \<open>ValueError\<close>, modelled as \<open>None\<close>.
\<close>

definition int_isspace :: "char \<Rightarrow> bool" where
  "int_isspace c =
     (let n = (of_char c :: nat) in (9 \<le> n \<and> n \<le> 13) \<or> n = 32 \<or> n = 133 \<or> n = 160)"

definition digit_value :: "char \<Rightarrow> nat option" where
  "digit_value c =
     (let n = (of_char c :: nat)
      in if 48 \<le> n \<and> n \<le> 57 then Some (n - 48)
         else if 97 \<le> n \<and> n \<le> 122 then Some (n - 87)
         else if 65 \<le> n \<and> n \<le> 90 then Some (n - 55)
         else None)"

definition is_digit :: "nat \<Rightarrow> char \<Rightarrow> bool" where
  "is_digit base c = (case digit_value c of None \<Rightarrow> False | Some d \<Rightarrow> d < base)"

text \<open>
  The digits of a literal, most significant first. \<open>prev\<close> tells whether the character
  just read was a digit: an underscore is accepted only between two digits.
\<close>

fun read_digits :: "nat \<Rightarrow> bool \<Rightarrow> string \<Rightarrow> nat list option" where
  "read_digits base prev [] = (if prev then Some [] else None)"
| "read_digits base prev (c # cs) =
     (if c = CHR ''_'' then (if prev then read_digits base False cs else None)
      else (case digit_value c of
              None \<Rightarrow> None
            | Some d \<Rightarrow>
                if d < base
                then (case read_digits base True cs of None \<Rightarrow> None | Some ds \<Rightarrow> Some (d # ds))
                else None))"

definition digits_value :: "nat \<Rightarrow> nat list \<Rightarrow> nat" where
  "digits_value base ds = foldl (\<lambda>acc d. acc * base + d) 0 ds"

definition int_max_str_digits :: nat where
  "int_max_str_digits = 4300"

definition strip_base_prefix :: "nat \<Rightarrow> string \<Rightarrow> string" where
  "strip_base_prefix base s =
     (if (base = 16 \<and> (take 2 s = ''0x'' \<or> take 2 s = ''0X''))
         \<or> (base = 2 \<and> (take 2 s = ''0b'' \<or> take 2 s = ''0B''))
      then (if take 1 (drop 2 s) = ''_'' then drop 3 s else drop 2 s)
      else s)"

definition py_int :: "string \<Rightarrow> nat \<Rightarrow> int option" where
  "py_int s base =
     (let t = rev (dropWhile int_isspace (rev (dropWhile int_isspace s)));
          neg = (take 1 t = ''-'');
          u = (if take 1 t = ''-'' \<or> take 1 t = ''+'' then drop 1 t else t);
          body = strip_base_prefix base u
      in if body = [] then None
         else (case read_digits base False body of
                 None \<Rightarrow> None
               | Some ds \<Rightarrow>
                   if base = 10 \<and> int_max_str_digits < length ds then None
                   else Some (if neg then - int (digits_value base ds)
                              else int (digits_value base ds))))"

subsection \<open>Numeric literals: \<open>parse_any_int\<close>\<close>

text \<open>
  \<^verbatim>\<open>
  x = x.strip().replace("_","").replace("\"","")
  if x.lower().startswith("0b"):
      if len(x) == 2: raise AsmError(...)
      return int(x[2:], 2)
  elif x.lower().startswith("0x"):
      if len(x) == 2: raise AsmError(...)
      return int(x, 16)
  else:
      if x == "": raise AsmError(...)
      return int(x, 10)
  \<close>
  The \<open>ValueError\<close> of \<open>int\<close> is not caught here.
\<close>

definition clean_literal :: "string \<Rightarrow> string" where
  "clean_literal x = py_remove (CHR 0x22) (py_remove (CHR ''_'') (py_strip x))"

definition int_or_ValueError :: "string \<Rightarrow> nat \<Rightarrow> error + int" where
  "int_or_ValueError s base = (case py_int s base of None \<Rightarrow> Inl ValueError | Some v \<Rightarrow> Inr v)"

definition parse_any_int :: "string \<Rightarrow> error + int" where
  "parse_any_int x0 =
     (let x = clean_literal x0
      in if py_startswith (py_lower x) ''0b''
         then (if length x = 2 then Inl AsmError else int_or_ValueError (drop 2 x) 2)
         else if py_startswith (py_lower x) ''0x''
         then (if length x = 2 then Inl AsmError else int_or_ValueError x 16)
         else (if x = [] then Inl AsmError else int_or_ValueError x 10))"

subsection \<open>Section overlap: \<open>check_section_overlap\<close>\<close>

text \<open>
  \<^verbatim>\<open>
  code_min = code_start;  code_max = code_start + code_size - 1
  data_min = data_start;  data_max = data_start + data_size - 1
  if code_max < data_min: return
  elif data_max < code_min: return
  else: raise AsmError(...)
  \<close>
\<close>

definition check_section_overlap :: "int \<Rightarrow> int \<Rightarrow> int \<Rightarrow> int \<Rightarrow> error + unit" where
  "check_section_overlap code_start code_size data_start data_size =
     (let code_min = code_start;
          code_max = code_start + code_size - 1;
          data_min = data_start;
          data_max = data_start + data_size - 1
      in if code_max < data_min then Inr ()
         else if data_max < code_min then Inr ()
         else Inl AsmError)"

subsection \<open>The configurable tables\<close>

definition opcode_map :: "string \<rightharpoonup> string" where
  "opcode_map = map_of [(''jump'', ''00010''), (''add'', ''00011''), (''setreg'', ''00001'')]"

definition register_map :: "string \<rightharpoonup> int" where
  "register_map =
     map_of [(''Jump_Register'', 2), (''R1'', 5), (''REG_MOD'', 1), (''REG_CMR'', 2)]"

definition flag_map :: "string \<rightharpoonup> string" where
  "flag_map = map_of [(''REG_SET1'', ''00100000''), (''REG_SET2'', ''00010000'')]"

subsection \<open>The symbol table\<close>

text \<open>
  Class \<open>SymbolTable\<close>. A dictionary is a map; an address that Python holds as
  \<open>None\<close> is \<open>None\<close> of \<open>int option\<close>, so a name can be present and still unbound,
  as a function is between its declaration and the first layout pass.
\<close>

record SymbolTable =
  alias_map :: "string \<rightharpoonup> int option"
  reverse_alias_map :: "int option \<rightharpoonup> string list"
  function_map :: "string \<rightharpoonup> int option"
  macro_map :: "string \<rightharpoonup> int"

definition SymbolTable_init :: SymbolTable where
  "SymbolTable_init =
     \<lparr>alias_map = Map.empty, reverse_alias_map = Map.empty,
      function_map = Map.empty, macro_map = Map.empty\<rparr>"

text \<open>\<open>d.get(k, None)\<close> on a dictionary whose values may be \<open>None\<close>.\<close>

definition get_or_None :: "('k \<rightharpoonup> 'v option) \<Rightarrow> 'k \<Rightarrow> 'v option" where
  "get_or_None d k = (case d k of None \<Rightarrow> None | Some v \<Rightarrow> v)"

definition get_alias_addr :: "SymbolTable \<Rightarrow> string \<Rightarrow> int option" where
  "get_alias_addr st aname = get_or_None (alias_map st) aname"

definition get_function_addr :: "SymbolTable \<Rightarrow> string \<Rightarrow> int option" where
  "get_function_addr st fname = get_or_None (function_map st) fname"

definition get_macro_value :: "SymbolTable \<Rightarrow> string \<Rightarrow> int option" where
  "get_macro_value st mname = macro_map st mname"

definition define_alias :: "SymbolTable \<Rightarrow> string \<Rightarrow> int option \<Rightarrow> int \<Rightarrow> error + SymbolTable" where
  "define_alias st aname addr lineno =
     (case get_alias_addr st aname of
        Some old \<Rightarrow> (if Some old \<noteq> addr \<and> addr \<noteq> None then Inl AsmError else Inr st)
      | None \<Rightarrow>
          Inr (st\<lparr>alias_map := (alias_map st)(aname \<mapsto> addr),
                  reverse_alias_map := (reverse_alias_map st)
                    (addr \<mapsto> (case reverse_alias_map st addr of None \<Rightarrow> [] | Some l \<Rightarrow> l) @ [aname])\<rparr>))"

definition define_function :: "SymbolTable \<Rightarrow> string \<Rightarrow> int option \<Rightarrow> error + SymbolTable" where
  "define_function st fname addr =
     (case get_function_addr st fname of
        Some old \<Rightarrow>
          (if Some old \<noteq> addr \<and> addr \<noteq> None then Inl AsmError
           else Inr (st\<lparr>function_map := (function_map st)(fname \<mapsto> addr)\<rparr>))
      | None \<Rightarrow> Inr (st\<lparr>function_map := (function_map st)(fname \<mapsto> addr)\<rparr>))"

definition define_macro :: "SymbolTable \<Rightarrow> string \<Rightarrow> int \<Rightarrow> error + SymbolTable" where
  "define_macro st mname v =
     (case macro_map st mname of
        Some old \<Rightarrow>
          (if old \<noteq> v then Inl AsmError else Inr (st\<lparr>macro_map := (macro_map st)(mname \<mapsto> v)\<rparr>))
      | None \<Rightarrow> Inr (st\<lparr>macro_map := (macro_map st)(mname \<mapsto> v)\<rparr>))"

subsection \<open>Operands: \<open>parse_one_param\<close> and \<open>parse_three_params\<close>\<close>

text \<open>
  \<open>parse_one_param\<close> follows the source's \<open>if\<close>/\<open>elif\<close> chain: \<open>[]\<close>, \<open>[name():]\<close>,
  \<open>[#macro]\<close>, \<open>[@alias]\<close>, \<open>[register | macro | literal]\<close>, and a bare literal.
  \<open>t[1:-1]\<close> is \<open>butlast (tl t)\<close>, \<open>inside[:-3]\<close> is \<open>take (length inside - 3) inside\<close>.
\<close>

definition or_zero :: "int option \<Rightarrow> int" where
  "or_zero v = (case v of None \<Rightarrow> 0 | Some a \<Rightarrow> a)"

definition parse_one_param :: "string \<Rightarrow> SymbolTable \<Rightarrow> error + int" where
  "parse_one_param tok symtbl =
     (let t = py_strip tok
      in if t = ''[]'' then Inr 0
         else if py_startswith t ''['' \<and> py_endswith t '']''
         then (let inside = py_strip (butlast (tl t))
               in if py_endswith inside ''():''
                  then Inr (or_zero (get_function_addr symtbl
                              (py_strip (take (length inside - 3) inside))))
                  else if py_startswith inside ''#''
                  then Inr (or_zero (get_macro_value symtbl (drop 1 inside)))
                  else if py_startswith inside ''@''
                  then Inr (or_zero (get_alias_addr symtbl (drop 1 inside)))
                  else (case register_map inside of
                          Some r \<Rightarrow> Inr r
                        | None \<Rightarrow>
                            (case macro_map symtbl inside of
                               Some m \<Rightarrow> Inr m
                             | None \<Rightarrow> parse_any_int inside)))
         else parse_any_int t)"

text \<open>
  \<^verbatim>\<open>
  p = [0, 0, 0]
  for i in range(min(3, len(ptoks))):
      p[i] = parse_one_param(ptoks[i], symtbl)
  return tuple(p)
  \<close>
  The loop runs over the indices; the tuple is the list \<open>p\<close>.
\<close>

fun params_loop :: "string list \<Rightarrow> SymbolTable \<Rightarrow> nat list \<Rightarrow> int list \<Rightarrow> error + int list" where
  "params_loop ptoks symtbl [] p = Inr p"
| "params_loop ptoks symtbl (i # rest) p =
     (case parse_one_param (ptoks ! i) symtbl of
        Inl e \<Rightarrow> Inl e
      | Inr v \<Rightarrow> params_loop ptoks symtbl rest (p[i := v]))"

definition parse_three_params :: "string list \<Rightarrow> SymbolTable \<Rightarrow> error + int list" where
  "parse_three_params ptoks symtbl =
     params_loop ptoks symtbl [0..<min 3 (length ptoks)] [0, 0, 0]"

subsection \<open>Instruction expansion: \<open>expand_instr\<close>\<close>

text \<open>
  \<^verbatim>\<open>
  r = []
  while v > 0:
      r.append(v & 1); v >>= 1
  return r
  \<close>
\<close>

function int_to_lsb_array :: "int \<Rightarrow> int list" where
  "int_to_lsb_array v = (if v > 0 then (v AND 1) # int_to_lsb_array (v div 2) else [])"
  by pat_completeness auto
termination
  by (relation "measure nat") auto

declare int_to_lsb_array.simps [simp del]

text \<open>\<open>xs[i] = v\<close> on a Python list: a negative index counts from the end.\<close>

definition py_setitem :: "'a list \<Rightarrow> int \<Rightarrow> 'a \<Rightarrow> error + 'a list" where
  "py_setitem xs i v =
     (if 0 \<le> i \<and> i < int (length xs) then Inr (xs[nat i := v])
      else if i < 0 \<and> - int (length xs) \<le> i then Inr (xs[nat (int (length xs) + i) := v])
      else Inl IndexError)"

text \<open>\<open>xs[:k]\<close>.\<close>

definition py_slice_to :: "'a list \<Rightarrow> int \<Rightarrow> 'a list" where
  "py_slice_to xs k = (if 0 \<le> k then take (nat k) xs else take (nat (int (length xs) + k)) xs)"

text \<open>\<open>str(b)\<close> for an integer.\<close>

fun dec_digits :: "nat \<Rightarrow> string" where
  "dec_digits n =
     (if n < 10 then [char_of (48 + n)] else dec_digits (n div 10) @ [char_of (48 + n mod 10)])"

declare dec_digits.simps [simp del]

definition py_str :: "int \<Rightarrow> string" where
  "py_str i = (if i < 0 then CHR ''-'' # dec_digits (nat (- i)) else dec_digits (nat i))"

text \<open>\<open>[int(x) for x in xs]\<close>: the first character that is not a digit raises.\<close>

fun int_chars :: "string \<Rightarrow> error + int list" where
  "int_chars [] = Inr []"
| "int_chars (c # cs) =
     (case int_or_ValueError [c] 10 of
        Inl e \<Rightarrow> Inl e
      | Inr v \<Rightarrow> (case int_chars cs of Inl e \<Rightarrow> Inl e | Inr vs \<Rightarrow> Inr (v # vs)))"

text \<open>
  One field of the word, the source's
  \<^verbatim>\<open>
  for i in range(width):
      if arr: out31[offset + i] = arr.pop(0)
      else:   out31[offset + i] = 0
  \<close>
  run over the indices \<open>i\<close>; it returns what is left of \<open>arr\<close> and the array written.
\<close>

fun fill_field :: "int \<Rightarrow> nat list \<Rightarrow> int list \<Rightarrow> int list \<Rightarrow> error + (int list \<times> int list)" where
  "fill_field offset [] arr out31 = Inr (arr, out31)"
| "fill_field offset (i # rest) arr out31 =
     (case arr of
        b # bs \<Rightarrow>
          (case py_setitem out31 (offset + int i) b of
             Inl e \<Rightarrow> Inl e
           | Inr out' \<Rightarrow> fill_field offset rest bs out')
      | [] \<Rightarrow>
          (case py_setitem out31 (offset + int i) 0 of
             Inl e \<Rightarrow> Inl e
           | Inr out' \<Rightarrow> fill_field offset rest [] out'))"

text \<open>\<open>range(w)\<close> for an integer \<open>w\<close>; empty when \<open>w \<le> 0\<close>.\<close>

definition py_range :: "int \<Rightarrow> nat list" where
  "py_range w = [0..<nat w]"

text \<open>
  One pass through the body of \<open>while True\<close>, up to \<open>bitstr\<close>: the word, and what is
  left of the four bit arrays.
\<close>

definition expand_word ::
  "int \<Rightarrow> int \<Rightarrow> int \<Rightarrow> int \<Rightarrow> int list \<Rightarrow> int list \<Rightarrow> int list \<Rightarrow> int list
   \<Rightarrow> error + (string \<times> int list \<times> int list \<times> int list \<times> int list)" where
  "expand_word opcode_width param1_width param2_width param3_width op_arr arr1 arr2 arr3 =
     (let out0 = replicate (nat (opcode_width + param1_width + param2_width + param3_width + 1)) (0::int)
      in case fill_field 0 (py_range opcode_width) op_arr out0 of
           Inl e \<Rightarrow> Inl e
         | Inr (op_arr', out1) \<Rightarrow>
        (case fill_field opcode_width (py_range param1_width) arr1 out1 of
           Inl e \<Rightarrow> Inl e
         | Inr (arr1', out2) \<Rightarrow>
        (case fill_field (opcode_width + param1_width) (py_range param2_width) arr2 out2 of
           Inl e \<Rightarrow> Inl e
         | Inr (arr2', out3) \<Rightarrow>
        (case fill_field (opcode_width + param1_width + param2_width) (py_range param3_width) arr3 out3 of
           Inl e \<Rightarrow> Inl e
         | Inr (arr3', out4) \<Rightarrow>
        (let cbit = (if arr1' \<noteq> [] \<or> arr2' \<noteq> [] \<or> arr3' \<noteq> [] then 1 else 0)
         in case py_setitem out4 (opcode_width + param1_width + param2_width + param3_width) cbit of
              Inl e \<Rightarrow> Inl e
            | Inr out31 \<Rightarrow>
                (let ones = sum_list (py_slice_to out31
                              (opcode_width + param1_width + param2_width + param3_width + 1));
                     pbit = ones mod 2;
                     full32 = out31 @ [pbit];
                     bitstr = concat (map py_str (rev full32))
                 in Inr (bitstr, op_arr', arr1', arr2', arr3')))))))"

text \<open>
  The \<open>while True\<close> loop. It leaves when the three parameter arrays are empty; with a
  parameter width of 0 and bits left it never does, so the result is an \<open>option\<close>:
  \<open>None\<close> is a loop that does not return.
\<close>

partial_function (option) expand_loop ::
  "int \<Rightarrow> int \<Rightarrow> int \<Rightarrow> int \<Rightarrow> int list \<Rightarrow> int list \<Rightarrow> int list \<Rightarrow> int list \<Rightarrow> string list
   \<Rightarrow> (error + string list) option" where
  "expand_loop opcode_width param1_width param2_width param3_width op_arr arr1 arr2 arr3 result =
     (case expand_word opcode_width param1_width param2_width param3_width op_arr arr1 arr2 arr3 of
        Inl e \<Rightarrow> Some (Inl e)
      | Inr (bitstr, op_arr', arr1', arr2', arr3') \<Rightarrow>
          if arr1' = [] \<and> arr2' = [] \<and> arr3' = [] then Some (Inr (result @ [bitstr]))
          else expand_loop opcode_width param1_width param2_width param3_width
                 op_arr' arr1' arr2' arr3' (result @ [bitstr]))"

declare expand_loop.simps [code]

definition expand_instr ::
  "string \<Rightarrow> int \<Rightarrow> int \<Rightarrow> int \<Rightarrow> int \<Rightarrow> int \<Rightarrow> int \<Rightarrow> int \<Rightarrow> (error + string list) option" where
  "expand_instr opcode_bits p1 p2 p3 opcode_width param1_width param2_width param3_width =
     (case int_chars (rev opcode_bits) of
        Inl e \<Rightarrow> Some (Inl e)
      | Inr op_arr \<Rightarrow>
          expand_loop opcode_width param1_width param2_width param3_width
            op_arr (int_to_lsb_array p1) (int_to_lsb_array p2) (int_to_lsb_array p3) [])"

subsection \<open>Data words: \<open>parse_8_bit_data\<close> and \<open>parse_data_line\<close>\<close>

text \<open>\<open>bin(v)\<close> and \<open>"{:08b}".format(v)\<close>; the sign of a negative number comes first.\<close>

fun bin_digits :: "nat \<Rightarrow> string" where
  "bin_digits n =
     (if n < 2 then [char_of (48 + n)] else bin_digits (n div 2) @ [char_of (48 + n mod 2)])"

declare bin_digits.simps [simp del]

definition py_bin :: "int \<Rightarrow> string" where
  "py_bin v = (if v < 0 then ''-0b'' @ bin_digits (nat (- v)) else ''0b'' @ bin_digits (nat v))"

definition zero_pad :: "nat \<Rightarrow> string \<Rightarrow> string" where
  "zero_pad w s = replicate (w - length s) CHR ''0'' @ s"

definition format_08b :: "int \<Rightarrow> string" where
  "format_08b v =
     (if v < 0 then CHR ''-'' # zero_pad 7 (bin_digits (nat (- v))) else zero_pad 8 (bin_digits (nat v)))"

text \<open>The character class \<open>[|&^~+-]\<close>, \<open>re.findall\<close> of it and \<open>re.split\<close> on it.\<close>

definition is_operator :: "char \<Rightarrow> bool" where
  "is_operator c =
     (c = CHR ''|'' \<or> c = CHR ''&'' \<or> c = CHR ''^'' \<or> c = CHR ''~'' \<or> c = CHR ''+'' \<or> c = CHR ''-'')"

fun split_operators :: "string \<Rightarrow> string \<Rightarrow> string list" where
  "split_operators cur [] = [rev cur]"
| "split_operators cur (c # cs) =
     (if is_operator c then rev cur # split_operators [] cs else split_operators (c # cur) cs)"

text \<open>
  \<open>re.findall(r'"([^"]+)"', s)\<close>: at a quote, a non-empty run of other characters
  closed by a quote is a match and the scan goes on behind the closing quote; otherwise
  the scan moves one character on.
\<close>

function findall_quoted :: "string \<Rightarrow> string list" where
  "findall_quoted [] = []"
| "findall_quoted (c # rest) =
     (if c = CHR 0x22 \<and> takeWhile (\<lambda>d. d \<noteq> CHR 0x22) rest \<noteq> []
         \<and> dropWhile (\<lambda>d. d \<noteq> CHR 0x22) rest \<noteq> []
      then takeWhile (\<lambda>d. d \<noteq> CHR 0x22) rest
             # findall_quoted (tl (dropWhile (\<lambda>d. d \<noteq> CHR 0x22) rest))
      else findall_quoted rest)"
  by pat_completeness auto
termination
proof (relation "measure length")
  show "wf (measure length)" by simp
next
  fix c :: char and rest :: string
  have "length (tl (dropWhile (\<lambda>d. d \<noteq> CHR 0x22) rest)) \<le> length rest"
    using length_dropWhile_le [of "\<lambda>d. d \<noteq> CHR 0x22" rest] by simp
  then show "(tl (dropWhile (\<lambda>d. d \<noteq> CHR 0x22) rest), c # rest) \<in> measure length"
    by simp
next
  fix c :: char and rest :: string
  show "(rest, c # rest) \<in> measure length" by simp
qed

text \<open>
  The value of one flag of a flag expression: a macro, rendered by \<open>bin(...)[2:]\<close>, or
  an entry of \<open>flag_map\<close>; at most 8 characters, read in base 2.
\<close>

definition flag_value_of :: "SymbolTable \<Rightarrow> string \<Rightarrow> error + int" where
  "flag_value_of symtbl flag =
     (case (case macro_map symtbl flag of
              Some v \<Rightarrow> Inr (drop 2 (py_bin v))
            | None \<Rightarrow>
                (case flag_map flag of
                   Some b \<Rightarrow> Inr (py_remove CHR '' '' b)
                 | None \<Rightarrow> Inl AsmError)) of
        Inl e \<Rightarrow> Inl e
      | Inr bits \<Rightarrow> if 8 < length bits then Inl AsmError else int_or_ValueError bits 2)"

definition apply_operator :: "char \<Rightarrow> int \<Rightarrow> int \<Rightarrow> int" where
  "apply_operator operator byte flag_value =
     (if operator = CHR ''|'' then byte OR flag_value
      else if operator = CHR ''&'' then byte AND flag_value
      else if operator = CHR ''^'' then byte XOR flag_value
      else if operator = CHR ''~'' then (NOT byte) AND 255
      else if operator = CHR ''+'' then byte + flag_value
      else if operator = CHR ''-'' then byte - flag_value
      else byte)"

definition nth_or_IndexError :: "'a list \<Rightarrow> nat \<Rightarrow> error + 'a" where
  "nth_or_IndexError xs i = (if i < length xs then Inr (xs ! i) else Inl IndexError)"

text \<open>\<open>for i, flag in enumerate(flags)\<close>, with \<open>byte\<close> carried along.\<close>

fun flags_loop :: "SymbolTable \<Rightarrow> string \<Rightarrow> nat \<Rightarrow> string list \<Rightarrow> int \<Rightarrow> error + int" where
  "flags_loop symtbl operators i [] byte = Inr byte"
| "flags_loop symtbl operators i (flag # rest) byte =
     (case flag_value_of symtbl (py_strip flag) of
        Inl e \<Rightarrow> Inl e
      | Inr flag_value \<Rightarrow>
          if i = 0 then flags_loop symtbl operators (Suc i) rest flag_value
          else (case nth_or_IndexError operators (i - 1) of
                  Inl e \<Rightarrow> Inl e
                | Inr operator \<Rightarrow>
                    flags_loop symtbl operators (Suc i) rest
                      (apply_operator operator byte flag_value)))"

definition byte_to_bitstr :: "int \<Rightarrow> error + string" where
  "byte_to_bitstr byte = (if 256 \<le> byte then Inl AsmError else Inr (format_08b byte))"

definition is_bit :: "char \<Rightarrow> bool" where
  "is_bit c = (c = CHR ''0'' \<or> c = CHR ''1'')"

text \<open>
  The four branches of \<open>parse_8_bit_data\<close>: a flag expression, a \<open>0b\<close> literal, a
  \<open>0x\<close> literal, and a macro or decimal literal. Only the last two catch the
  \<open>ValueError\<close> of \<open>int\<close>.
\<close>

definition parse_8_bit_data :: "string \<Rightarrow> int \<Rightarrow> SymbolTable \<Rightarrow> error + string" where
  "parse_8_bit_data part lineno symtbl =
     (if \<exists>c \<in> set part. is_operator c
      then (case flags_loop symtbl (filter is_operator part) 0 (split_operators [] part) 0 of
              Inl e \<Rightarrow> Inl e
            | Inr byte \<Rightarrow> byte_to_bitstr byte)
      else if py_startswith part ''0b''
      then (let bits = drop 2 part
            in if 8 < length bits then Inl AsmError
               else if \<not> list_all is_bit bits then Inl AsmError
               else (case int_or_ValueError bits 2 of
                       Inl e \<Rightarrow> Inl e
                     | Inr byte \<Rightarrow> Inr (format_08b byte)))
      else if py_startswith part ''0x''
      then (case py_int part 16 of
              None \<Rightarrow> Inl AsmError
            | Some byte \<Rightarrow> byte_to_bitstr byte)
      else (case macro_map symtbl part of
              Some byte \<Rightarrow> byte_to_bitstr byte
            | None \<Rightarrow>
                (case py_int part 10 of
                   None \<Rightarrow> Inl AsmError
                 | Some byte \<Rightarrow> byte_to_bitstr byte)))"

text \<open>The loop over the four quoted parts; the first part that fails raises.\<close>

fun parse_parts :: "string list \<Rightarrow> int \<Rightarrow> SymbolTable \<Rightarrow> error + string list" where
  "parse_parts [] lineno symtbl = Inr []"
| "parse_parts (part # rest) lineno symtbl =
     (case parse_8_bit_data (py_strip part) lineno symtbl of
        Inl e \<Rightarrow> Inl e
      | Inr b \<Rightarrow>
          (case parse_parts rest lineno symtbl of
             Inl e \<Rightarrow> Inl e
           | Inr bs \<Rightarrow> Inr (b # bs)))"

text \<open>
  \<open>parse_data_line\<close>: with a double quote in the line, four quoted bytes joined into
  one word; without, a string of \<open>0\<close> and \<open>1\<close> of at most 32 characters, padded on
  the right with \<open>0\<close> (\<open>bits.ljust(32, '0')\<close>).
\<close>

definition parse_data_line :: "string \<Rightarrow> int \<Rightarrow> SymbolTable \<Rightarrow> error + string list" where
  "parse_data_line line_str lineno symtbl =
     (let s = py_strip line_str
      in if CHR 0x22 \<in> set s
         then (let parts = findall_quoted s
               in if length parts \<noteq> 4 then Inl AsmError
                  else (case parse_parts parts lineno symtbl of
                          Inl e \<Rightarrow> Inl e
                        | Inr bitstrings \<Rightarrow> Inr [concat bitstrings]))
         else (let bits = concat (py_split s)
               in if \<not> list_all is_bit bits then Inl AsmError
                  else if length bits = 32 then Inr [bits]
                  else if length bits < 32 then Inr [bits @ replicate (32 - length bits) CHR ''0'']
                  else Inl AsmError))"

subsection \<open>Blocks and IR lines\<close>

text \<open>
  Classes \<open>Block\<close> and \<open>IRLine\<close>. Both classes have fields \<open>type\<close>, \<open>content\<close> and
  \<open>lineno\<close>; the fields of a block carry the prefix \<open>b_\<close> and those of an IR line the
  prefix \<open>ir_\<close>. \<open>IRType.MACRO\<close> is \<open>IR_MACRO\<close>.
\<close>

datatype BlockType = FUNCTION | MEMORY | MACRO

datatype IRType = IR_MACRO | MEMORY_DATA | ALIAS | FUNC_DEFINE | INSTRUCTION

record IRLine =
  ir_type :: IRType
  ir_content :: string
  mem :: "string option"
  ir_lineno :: int
  expanded_bits :: "string list"
  addresses :: "int list"
  func :: "string option"
  opcode :: "string option"
  param1 :: "int option"
  param2 :: "int option"
  param3 :: "int option"

record Block =
  b_type :: BlockType
  b_name :: string
  b_lineno :: int
  b_content :: "IRLine list"
  start_addr :: "int option"
  b_size :: int

subsection \<open>The layout pass: \<open>resolve_symbols\<close>\<close>

text \<open>
  A computation of the pass either does not return (\<open>None\<close>, from \<open>expand_instr\<close>),
  raises (\<open>Some (Inl e)\<close>) or returns (\<open>Some (Inr v)\<close>).

  \<open>for_each body xs s\<close> is a Python \<open>for x in xs: body\<close> whose body updates the object
  \<open>x\<close> in place and the state \<open>s\<close> around it: it returns the updated objects and the
  last state, and stops at the first iteration that raises or does not return.
\<close>

fun for_each ::
  "('a \<Rightarrow> 's \<Rightarrow> (error + 'a \<times> 's) option) \<Rightarrow> 'a list \<Rightarrow> 's \<Rightarrow> (error + 'a list \<times> 's) option" where
  "for_each body [] s = Some (Inr ([], s))"
| "for_each body (x # xs) s =
     (case body x s of
        None \<Rightarrow> None
      | Some (Inl e) \<Rightarrow> Some (Inl e)
      | Some (Inr (x', s')) \<Rightarrow>
          (case for_each body xs s' of
             None \<Rightarrow> None
           | Some (Inl e) \<Rightarrow> Some (Inl e)
           | Some (Inr (xs', s'')) \<Rightarrow> Some (Inr (x' # xs', s''))))"

text \<open>\<open>list(range(a, b))\<close>.\<close>

definition range_list :: "int \<Rightarrow> int \<Rightarrow> int list" where
  "range_list a b = map (\<lambda>i. a + int i) [0..<nat (b - a)]"

text \<open>
  The \<open>IRType.INSTRUCTION\<close> branch: the line is split, the mnemonic looked up, the
  operands resolved and the instruction expanded at the code cursor. It returns the
  line and the number of words. \<open>content.split()[0]\<close> raises \<open>IndexError\<close> on a blank
  line, and unpacking \<open>p1, p2, p3\<close> raises \<open>ValueError\<close> unless there are three values.
\<close>

definition resolve_instruction ::
  "int \<Rightarrow> int \<Rightarrow> int \<Rightarrow> int \<Rightarrow> string \<Rightarrow> SymbolTable \<Rightarrow> int \<Rightarrow> IRLine
   \<Rightarrow> (error + IRLine \<times> int) option" where
  "resolve_instruction opcode_width param1_width param2_width param3_width block_name
     symbol_table current_code_address irline =
     (case py_split (ir_content irline) of
        [] \<Rightarrow> Some (Inl IndexError)
      | tok # param_toks \<Rightarrow>
          (let opc = py_lower tok
           in case opcode_map opc of
                None \<Rightarrow> Some (Inl AsmError)
              | Some opcode_bits \<Rightarrow>
                  if int (length opcode_bits) \<noteq> opcode_width then Some (Inl AsmError)
                  else (case parse_three_params param_toks symbol_table of
                          Inl e \<Rightarrow> Some (Inl e)
                        | Inr [p1, p2, p3] \<Rightarrow>
                            (case expand_instr opcode_bits p1 p2 p3
                                    opcode_width param1_width param2_width param3_width of
                               None \<Rightarrow> None
                             | Some (Inl e) \<Rightarrow> Some (Inl e)
                             | Some (Inr expansions) \<Rightarrow>
                                 Some (Inr
                                   (irline\<lparr>opcode := Some opc, param1 := Some p1,
                                      param2 := Some p2, param3 := Some p3,
                                      func := Some block_name,
                                      expanded_bits := expansions,
                                      addresses := range_list current_code_address
                                        (current_code_address + int (length expansions))\<rparr>,
                                    int (length expansions))))
                        | Inr _ \<Rightarrow> Some (Inl ValueError))))"

text \<open>
  The \<open>IRType.ALIAS\<close> branch, the same text in function and in memory blocks:
  \<^verbatim>\<open>
  alias_addr = block.start_addr + line_index
  if symbol_table.get_alias_addr(alias_name) is None:
      symbol_table.define_alias(alias_name, alias_addr, irline.lineno)
      updated = True
  \<close>
\<close>

definition resolve_alias ::
  "int \<Rightarrow> IRLine \<Rightarrow> SymbolTable \<Rightarrow> bool \<Rightarrow> error + SymbolTable \<times> bool" where
  "resolve_alias block_start irline symbol_table updated =
     (let alias_name = ir_content irline;
          line_index = ir_lineno irline;
          alias_addr = block_start + line_index
      in if get_alias_addr symbol_table alias_name = None
         then (case define_alias symbol_table alias_name (Some alias_addr) (ir_lineno irline) of
                 Inl e \<Rightarrow> Inl e
               | Inr symbol_table' \<Rightarrow> Inr (symbol_table', True))
         else Inr (symbol_table, updated))"

text \<open>
  The body of \<open>for irline in block.content\<close> in a function block. The state is the
  symbol table, \<open>current_code_address\<close>, \<open>block.size\<close> and \<open>updated\<close>.
\<close>

definition resolve_function_line ::
  "int \<Rightarrow> int \<Rightarrow> int \<Rightarrow> int \<Rightarrow> string \<Rightarrow> int \<Rightarrow> IRLine \<Rightarrow> SymbolTable \<times> int \<times> int \<times> bool
   \<Rightarrow> (error + IRLine \<times> (SymbolTable \<times> int \<times> int \<times> bool)) option" where
  "resolve_function_line opcode_width param1_width param2_width param3_width block_name
     block_start irline s =
     (case s of (symbol_table, current_code_address, block_size, updated) \<Rightarrow>
        if ir_type irline = INSTRUCTION
        then (case resolve_instruction opcode_width param1_width param2_width param3_width
                     block_name symbol_table current_code_address irline of
                None \<Rightarrow> None
              | Some (Inl e) \<Rightarrow> Some (Inl e)
              | Some (Inr (irline', n)) \<Rightarrow>
                  Some (Inr (irline', (symbol_table, current_code_address + n, block_size + n, updated))))
        else if ir_type irline = ALIAS
        then (case resolve_alias block_start irline symbol_table updated of
                Inl e \<Rightarrow> Some (Inl e)
              | Inr (symbol_table', updated') \<Rightarrow>
                  Some (Inr (irline, (symbol_table', current_code_address, block_size, updated'))))
        else Some (Inr (irline, s)))"

text \<open>
  The body of \<open>for irline in block.content\<close> in a memory block, with
  \<open>current_data_address\<close> in the state.
\<close>

definition resolve_memory_line ::
  "string \<Rightarrow> int \<Rightarrow> IRLine \<Rightarrow> SymbolTable \<times> int \<times> int \<times> bool
   \<Rightarrow> (error + IRLine \<times> (SymbolTable \<times> int \<times> int \<times> bool)) option" where
  "resolve_memory_line block_name block_start irline s =
     (case s of (symbol_table, current_data_address, block_size, updated) \<Rightarrow>
        if ir_type irline = MEMORY_DATA
        then (case parse_data_line (ir_content irline) (ir_lineno irline) symbol_table of
                Inl e \<Rightarrow> Some (Inl e)
              | Inr data_bits \<Rightarrow>
                  Some (Inr
                    (irline\<lparr>mem := Some block_name,
                       expanded_bits := data_bits,
                       addresses := range_list current_data_address
                         (current_data_address + int (length data_bits))\<rparr>,
                     (symbol_table, current_data_address + int (length data_bits),
                      block_size + int (length data_bits), updated))))
        else if ir_type irline = ALIAS
        then (case resolve_alias block_start irline symbol_table updated of
                Inl e \<Rightarrow> Some (Inl e)
              | Inr (symbol_table', updated') \<Rightarrow>
                  Some (Inr (irline, (symbol_table', current_data_address, block_size, updated'))))
        else Some (Inr (irline, s)))"

text \<open>
  The body of \<open>for block in blocks\<close>. The state is the symbol table, the two cursors
  and \<open>updated\<close>. A function without an address takes the code cursor, a function
  with one keeps it; a memory block starts at the data cursor. The size starts again
  from 0, and a size that differs from the one before sets \<open>updated\<close>. A block of
  another type is passed over.
\<close>

definition resolve_block ::
  "int \<Rightarrow> int \<Rightarrow> int \<Rightarrow> int \<Rightarrow> Block \<Rightarrow> SymbolTable \<times> int \<times> int \<times> bool
   \<Rightarrow> (error + Block \<times> (SymbolTable \<times> int \<times> int \<times> bool)) option" where
  "resolve_block opcode_width param1_width param2_width param3_width block s =
     (case s of (symbol_table, current_code_address, current_data_address, updated) \<Rightarrow>
        if b_type block = FUNCTION
        then (case (case get_function_addr symbol_table (b_name block) of
                      None \<Rightarrow>
                        (case define_function symbol_table (b_name block)
                                (Some current_code_address) of
                           Inl e \<Rightarrow> Inl e
                         | Inr symbol_table' \<Rightarrow> Inr (symbol_table', current_code_address))
                    | Some a \<Rightarrow> Inr (symbol_table, a)) of
                Inl e \<Rightarrow> Some (Inl e)
              | Inr (symbol_table1, block_start) \<Rightarrow>
                  (let initial_size = b_size block
                   in case for_each
                             (resolve_function_line opcode_width param1_width param2_width
                                param3_width (b_name block) block_start)
                             (b_content block) (symbol_table1, current_code_address, 0, updated) of
                        None \<Rightarrow> None
                      | Some (Inl e) \<Rightarrow> Some (Inl e)
                      | Some (Inr (content', (symbol_table2, code_address', size', updated'))) \<Rightarrow>
                          Some (Inr
                            (block\<lparr>b_content := content', start_addr := Some block_start,
                               b_size := size'\<rparr>,
                             (symbol_table2, code_address', current_data_address,
                              (if size' \<noteq> initial_size then True else updated'))))))
        else if b_type block = MEMORY
        then (let block_start = current_data_address;
                  initial_size = b_size block
              in case for_each (resolve_memory_line (b_name block) block_start)
                        (b_content block) (symbol_table, current_data_address, 0, updated) of
                   None \<Rightarrow> None
                 | Some (Inl e) \<Rightarrow> Some (Inl e)
                 | Some (Inr (content', (symbol_table2, data_address', size', updated'))) \<Rightarrow>
                     Some (Inr
                       (block\<lparr>b_content := content', start_addr := Some block_start,
                          b_size := size'\<rparr>,
                        (symbol_table2, current_code_address, data_address',
                         (if size' \<noteq> initial_size then True else updated')))))
        else Some (Inr (block, s)))"

text \<open>
  \<open>resolve_symbols\<close> returns \<open>updated\<close>; the blocks and the symbol table it has
  changed in place are returned with it.
\<close>

definition resolve_symbols ::
  "Block list \<Rightarrow> SymbolTable \<Rightarrow> int \<Rightarrow> int \<Rightarrow> int \<Rightarrow> int \<Rightarrow> int \<Rightarrow> int
   \<Rightarrow> (error + Block list \<times> SymbolTable \<times> bool) option" where
  "resolve_symbols blocks symbol_table code_start data_start
     opcode_width param1_width param2_width param3_width =
     (case for_each (resolve_block opcode_width param1_width param2_width param3_width)
             blocks (symbol_table, code_start, data_start, False) of
        None \<Rightarrow> None
      | Some (Inl e) \<Rightarrow> Some (Inl e)
      | Some (Inr (blocks', (symbol_table', code_address, data_address, updated))) \<Rightarrow>
          Some (Inr (blocks', symbol_table', updated)))"

text \<open>The snapshot \<open>[(b.start_addr, b.size) for b in blocks]\<close> that \<open>main\<close> compares.\<close>

definition snapshot :: "Block list \<Rightarrow> (int option \<times> int) list" where
  "snapshot blocks = map (\<lambda>b. (start_addr b, b_size b)) blocks"

text \<open>
  The passes of \<open>main\<close>:
  \<^verbatim>\<open>
  for pass_i in range(MAX_PASS):
      updated = resolve_symbols(blocks, symtbl, ...)
      if pass_i == 0:
          prev_blocks = [(b.start_addr, b.size) for b in blocks]
      else:
          current_blocks = [(b.start_addr, b.size) for b in blocks]
          if current_blocks == prev_blocks: break
          prev_blocks = current_blocks
  else:
      raise AsmError(...)
  \<close>
  \<open>layout_passes n prev\<close> is the loop with \<open>n\<close> passes left, \<open>prev\<close> being \<open>None\<close>
  before the first pass and the snapshot of the pass before afterwards. An \<open>AsmError\<close>
  of a pass is raised again as an \<open>AsmError\<close>, any other exception passes through.
\<close>

definition MAX_PASS :: nat where
  "MAX_PASS = 10"

fun layout_passes ::
  "nat \<Rightarrow> (int option \<times> int) list option \<Rightarrow> Block list \<Rightarrow> SymbolTable
   \<Rightarrow> int \<Rightarrow> int \<Rightarrow> int \<Rightarrow> int \<Rightarrow> int \<Rightarrow> int \<Rightarrow> (error + Block list \<times> SymbolTable) option" where
  "layout_passes 0 prev blocks symtbl code_start data_start
     opcode_width param1_width param2_width param3_width = Some (Inl AsmError)"
| "layout_passes (Suc n) prev blocks symtbl code_start data_start
     opcode_width param1_width param2_width param3_width =
     (case resolve_symbols blocks symtbl code_start data_start
             opcode_width param1_width param2_width param3_width of
        None \<Rightarrow> None
      | Some (Inl e) \<Rightarrow> Some (Inl e)
      | Some (Inr (blocks', symtbl', updated)) \<Rightarrow>
          (case prev of
             None \<Rightarrow>
               layout_passes n (Some (snapshot blocks')) blocks' symtbl' code_start data_start
                 opcode_width param1_width param2_width param3_width
           | Some prev_blocks \<Rightarrow>
               if snapshot blocks' = prev_blocks then Some (Inr (blocks', symtbl'))
               else layout_passes n (Some (snapshot blocks')) blocks' symtbl' code_start
                      data_start opcode_width param1_width param2_width param3_width))"

subsection \<open>Notions of the specification\<close>

text \<open>
  The definitions below are not code of the assembler: they say what the statements
  about it mean.

  The operand at position \<open>i\<close> as the specification has it: the value of the token when
  there is one, 0 when the token is missing.
\<close>

definition param_or_zero :: "string list \<Rightarrow> SymbolTable \<Rightarrow> nat \<Rightarrow> error + int" where
  "param_or_zero ptoks symtbl i =
     (if i < length ptoks then parse_one_param (ptoks ! i) symtbl else Inr 0)"

text \<open>
  The value of a run of digits in a base, most significant digit first; \<open>digit_value\<close>
  reads 0 to 9 and the letters as the digits from 10 on.
\<close>

definition literal_value :: "nat \<Rightarrow> string \<Rightarrow> int" where
  "literal_value base ds =
     foldl (\<lambda>acc c. acc * int base + int (case digit_value c of None \<Rightarrow> 0 | Some d \<Rightarrow> d)) 0 ds"

text \<open>Sample data for the instances below.\<close>

definition alias_line :: IRLine where
  "alias_line = \<lparr>ir_type = ALIAS, ir_content = ''FIRST'', mem = None, ir_lineno = 0,
     expanded_bits = [], addresses = [], func = None, opcode = None,
     param1 = None, param2 = None, param3 = None\<rparr>"

text \<open>
  A program of one function with one instruction and one memory block with a data
  line and its alias, as the block parser leaves it, and after the first pass.
\<close>

definition example_blocks0 :: "Block list" where
  "example_blocks0 =
     [\<lparr>b_type = FUNCTION, b_name = ''main'', b_lineno = 0,
        b_content =
          [\<lparr>ir_type = INSTRUCTION, ir_content = ''setreg 1 2 3'', mem = None, ir_lineno = 1,
             expanded_bits = [], addresses = [], func = None, opcode = None,
             param1 = None, param2 = None, param3 = None\<rparr>],
        start_addr = None, b_size = 0\<rparr>,
      \<lparr>b_type = MEMORY, b_name = ''Params'', b_lineno = 2,
        b_content =
          [\<lparr>ir_type = MEMORY_DATA, ir_content = ''101'', mem = None, ir_lineno = 3,
             expanded_bits = [], addresses = [], func = None, opcode = None,
             param1 = None, param2 = None, param3 = None\<rparr>,
           alias_line],
        start_addr = None, b_size = 0\<rparr>]"

definition example_symbols0 :: SymbolTable where
  "example_symbols0 =
     \<lparr>alias_map = Map.empty, reverse_alias_map = Map.empty,
      function_map = [''main'' \<mapsto> None], macro_map = Map.empty\<rparr>"

definition example_blocks1 :: "Block list" where
  "example_blocks1 =
     [\<lparr>b_type = FUNCTION, b_name = ''main'', b_lineno = 0,
        b_content =
          [\<lparr>ir_type = INSTRUCTION, ir_content = ''setreg 1 2 3'', mem = None, ir_lineno = 1,
             expanded_bits = [''10000011000100000000000000100001''], addresses = [0],
             func = Some ''main'', opcode = Some ''setreg'',
             param1 = Some 1, param2 = Some 2, param3 = Some 3\<rparr>],
        start_addr = Some 0, b_size = 1\<rparr>,
      \<lparr>b_type = MEMORY, b_name = ''Params'', b_lineno = 2,
        b_content =
          [\<lparr>ir_type = MEMORY_DATA, ir_content = ''101'', mem = Some ''Params'', ir_lineno = 3,
             expanded_bits = [''10100000000000000000000000000000''], addresses = [80],
             func = None, opcode = None, param1 = None, param2 = None, param3 = None\<rparr>,
           alias_line],
        start_addr = Some 80, b_size = 1\<rparr>]"

definition example_symbols1 :: SymbolTable where
  "example_symbols1 =
     \<lparr>alias_map = [''FIRST'' \<mapsto> Some 80], reverse_alias_map = [Some 80 \<mapsto> [''FIRST'']],
      function_map = [''main'' \<mapsto> Some 0], macro_map = Map.empty\<rparr>"

text \<open>
  The XOR of the bits of a word written as a string of \<open>0\<close> and \<open>1\<close>: \<open>True\<close> when the
  number of \<open>1\<close>s is odd. A word has even parity when its XOR is \<open>False\<close>.
\<close>

definition xor_bits :: "string \<Rightarrow> bool" where
  "xor_bits w = foldr (\<lambda>c acc. (c = CHR ''1'') \<noteq> acc) w False"

text \<open>
  The continuation bits of the words of one instruction, as the specification wants
  them: the second character is \<open>1\<close> in every word but the last and \<open>0\<close> in the last.
\<close>

definition continuation_chain :: "string list \<Rightarrow> bool" where
  "continuation_chain ws =
     (ws \<noteq> [] \<and> list_all (\<lambda>w. take 1 (drop 1 w) = ''1'') (butlast ws)
      \<and> take 1 (drop 1 (last ws)) = ''0'')"

text \<open>The character of a bit.\<close>

definition bit_char :: "int \<Rightarrow> char" where
  "bit_char b = (if b = 1 then CHR ''1'' else CHR ''0'')"

text \<open>
  A word of \<open>n\<close> characters, each \<open>0\<close> or \<open>1\<close>, of even parity.
\<close>

definition word_ok :: "int \<Rightarrow> string \<Rightarrow> bool" where
  "word_ok n w = (length w = nat n \<and> list_all is_bit w \<and> \<not> xor_bits w)"

text \<open>
  What the loop of \<open>expand_instr\<close> has done when it leaves with the value \<open>y\<close>: it has
  appended words to \<open>result\<close>, their continuation bits form a chain, and they are words
  of even parity when the four arrays hold bits.
\<close>

definition loop_post ::
  "int \<Rightarrow> int \<Rightarrow> int \<Rightarrow> int \<Rightarrow> int list \<Rightarrow> int list \<Rightarrow> int list \<Rightarrow> int list \<Rightarrow> string list
   \<Rightarrow> error + string list \<Rightarrow> bool" where
  "loop_post wop w1 w2 w3 op a1 a2 a3 result y =
     (\<forall>ws. y = Inr ws \<longrightarrow>
           (\<exists>new. ws = result @ new \<and> continuation_chain new
              \<and> (set op \<union> set a1 \<union> set a2 \<union> set a3 \<subseteq> {0, 1}
                  \<longrightarrow> (\<forall>w \<in> set new. word_ok (wop + w1 + w2 + w3 + 2) w))))"

text \<open>
  The invariant of an IR line that has output: as many addresses as words, and each
  address 1 more than the one before.
\<close>

definition line_ok :: "IRLine \<Rightarrow> bool" where
  "line_ok l =
     (length (expanded_bits l) = length (addresses l)
      \<and> (\<forall>i. Suc i < length (addresses l) \<longrightarrow> addresses l ! Suc i = addresses l ! i + 1))"

text \<open>
  The lines for which a pass produces output: the instructions of a function block and
  the data lines of a memory block.
\<close>

definition produces_output :: "BlockType \<Rightarrow> IRLine \<Rightarrow> bool" where
  "produces_output t l =
     ((t = FUNCTION \<and> ir_type l = INSTRUCTION) \<or> (t = MEMORY \<and> ir_type l = MEMORY_DATA))"

text \<open>
  What a pass does to the output of one line, \<open>l'\<close> being the line \<open>l\<close> after the pass:
  a line that produces output has at least one word and satisfies the invariant, any
  other line keeps the words and addresses it had.
\<close>

definition line_after_pass :: "BlockType \<Rightarrow> IRLine \<Rightarrow> IRLine \<Rightarrow> bool" where
  "line_after_pass t l l' =
     (ir_type l' = ir_type l
      \<and> (if produces_output t l then expanded_bits l' \<noteq> [] \<and> line_ok l'
          else expanded_bits l' = expanded_bits l \<and> addresses l' = addresses l))"

definition block_after_pass :: "Block \<Rightarrow> Block \<Rightarrow> bool" where
  "block_after_pass b b' =
     (b_type b' = b_type b
      \<and> list_all2 (line_after_pass (b_type b)) (b_content b) (b_content b'))"

text \<open>
  The symbol table \<open>st'\<close> extends \<open>st\<close>: every function and alias that has an address in
  \<open>st\<close> has the same one in \<open>st'\<close>, and the macros are the same.
\<close>

definition binds_le :: "SymbolTable \<Rightarrow> SymbolTable \<Rightarrow> bool" where
  "binds_le st st' =
     ((\<forall>n a. get_function_addr st n = Some a \<longrightarrow> get_function_addr st' n = Some a)
      \<and> (\<forall>n a. get_alias_addr st n = Some a \<longrightarrow> get_alias_addr st' n = Some a)
      \<and> macro_map st' = macro_map st)"

text \<open>
  The symbols that a pass binds are bound already: the aliases of the lines, the name
  of a function block with the aliases of its lines, and so for every block.
\<close>

definition aliases_bound :: "SymbolTable \<Rightarrow> IRLine list \<Rightarrow> bool" where
  "aliases_bound st ls =
     (\<forall>l \<in> set ls. ir_type l = ALIAS \<longrightarrow> get_alias_addr st (ir_content l) \<noteq> None)"

definition block_bound :: "SymbolTable \<Rightarrow> Block \<Rightarrow> bool" where
  "block_bound st b =
     ((b_type b = FUNCTION \<longrightarrow>
         get_function_addr st (b_name b) \<noteq> None \<and> aliases_bound st (b_content b))
      \<and> (b_type b = MEMORY \<longrightarrow> aliases_bound st (b_content b)))"

definition saturated :: "SymbolTable \<Rightarrow> Block list \<Rightarrow> bool" where
  "saturated st blocks = (\<forall>b \<in> set blocks. block_bound st b)"

text \<open>
  What a pass does to a block, \<open>b'\<close> being the block \<open>b\<close> after the pass: the
  block keeps its type and name, and its lines keep their order with their type, text
  and \<open>lineno\<close> field; a function or memory block has a start address, any other block
  the one it had.
\<close>

definition line_key :: "IRLine \<Rightarrow> IRType \<times> string \<times> int" where
  "line_key l = (ir_type l, ir_content l, ir_lineno l)"

definition laid_out :: "Block \<Rightarrow> Block \<Rightarrow> bool" where
  "laid_out b b' =
     (b_type b' = b_type b \<and> b_name b' = b_name b
      \<and> map line_key (b_content b') = map line_key (b_content b)
      \<and> (if b_type b = FUNCTION \<or> b_type b = MEMORY then start_addr b' \<noteq> None
          else start_addr b' = start_addr b))"

text \<open>
  The start addresses after a pass with the data base \<open>d\<close> and the symbol table \<open>st\<close>
  that it leaves: a memory block starts where the memory blocks before it end, the first
  at \<open>d\<close>, and a function block starts at the address that the symbol table has for its
  name.
\<close>

fun memory_starts :: "int \<Rightarrow> Block list \<Rightarrow> bool" where
  "memory_starts d [] = True"
| "memory_starts d (b # bs) =
     (if b_type b = MEMORY then start_addr b = Some d \<and> memory_starts (d + b_size b) bs
      else memory_starts d bs)"

definition function_starts :: "SymbolTable \<Rightarrow> Block list \<Rightarrow> bool" where
  "function_starts st bs =
     (\<forall>b \<in> set bs. b_type b = FUNCTION \<longrightarrow>
        start_addr b \<noteq> None \<and> start_addr b = get_function_addr st (b_name b))"

text \<open>
  The bindings that the alias lines ask for, in the order of the pass: an alias line
  with the name \<open>n\<close> and the index \<open>k\<close> in its \<open>lineno\<close> field, in a function or memory
  block whose start address is \<open>S\<close>, asks for \<open>n\<close> at \<open>S + k\<close>. In such a list
  \<open>map_of\<close> finds the first entry of a name.
\<close>

definition line_alias :: "int \<Rightarrow> IRLine \<Rightarrow> (string \<times> int) list" where
  "line_alias S l = (if ir_type l = ALIAS then [(ir_content l, S + ir_lineno l)] else [])"

definition alias_lines_of :: "Block \<Rightarrow> (string \<times> int) list" where
  "alias_lines_of b =
     (if b_type b = FUNCTION \<or> b_type b = MEMORY
      then (case start_addr b of
              None \<Rightarrow> []
            | Some S \<Rightarrow> concat (map (line_alias S) (b_content b)))
      else [])"

definition pass_aliases :: "Block list \<Rightarrow> (string \<times> int) list" where
  "pass_aliases blocks = concat (map alias_lines_of blocks)"

text \<open>
  A map \<open>g\<close> of bound names, extended by a list of bindings asked for one after the
  other: a bound name keeps its address, an unbound name takes its first entry.
\<close>

definition first_binding ::
  "(string \<Rightarrow> int option) \<Rightarrow> (string \<times> int) list \<Rightarrow> string \<Rightarrow> int option" where
  "first_binding g al a = (case g a of Some v \<Rightarrow> Some v | None \<Rightarrow> map_of al a)"

text \<open>
  A program for the aliases: a function with an instruction and two aliases, one of
  them bound before the pass, and two memory blocks, the first with the alias \<open>FIRST\<close>
  on both of its data lines; before and after a pass with the code base 16 and the data
  base 80.
\<close>

definition alias_blocks0 :: "Block list" where
  "alias_blocks0 =
     [\<lparr>b_type = FUNCTION, b_name = ''main'', b_lineno = 0,
        b_content =
          [\<lparr>ir_type = INSTRUCTION, ir_content = ''setreg 1 2 3'', mem = None, ir_lineno = 1,
             expanded_bits = [], addresses = [], func = None, opcode = None,
             param1 = None, param2 = None, param3 = None\<rparr>,
           \<lparr>ir_type = ALIAS, ir_content = ''START'', mem = None, ir_lineno = 0,
             expanded_bits = [], addresses = [], func = None, opcode = None,
             param1 = None, param2 = None, param3 = None\<rparr>,
           \<lparr>ir_type = ALIAS, ir_content = ''KEPT'', mem = None, ir_lineno = 0,
             expanded_bits = [], addresses = [], func = None, opcode = None,
             param1 = None, param2 = None, param3 = None\<rparr>],
        start_addr = None, b_size = 0\<rparr>,
      \<lparr>b_type = MEMORY, b_name = ''Params'', b_lineno = 2,
        b_content =
          [\<lparr>ir_type = MEMORY_DATA, ir_content = ''101'', mem = None, ir_lineno = 3,
             expanded_bits = [], addresses = [], func = None, opcode = None,
             param1 = None, param2 = None, param3 = None\<rparr>,
           \<lparr>ir_type = ALIAS, ir_content = ''FIRST'', mem = None, ir_lineno = 0,
             expanded_bits = [], addresses = [], func = None, opcode = None,
             param1 = None, param2 = None, param3 = None\<rparr>,
           \<lparr>ir_type = MEMORY_DATA, ir_content = ''101'', mem = None, ir_lineno = 4,
             expanded_bits = [], addresses = [], func = None, opcode = None,
             param1 = None, param2 = None, param3 = None\<rparr>,
           \<lparr>ir_type = ALIAS, ir_content = ''SECOND'', mem = None, ir_lineno = 1,
             expanded_bits = [], addresses = [], func = None, opcode = None,
             param1 = None, param2 = None, param3 = None\<rparr>,
           \<lparr>ir_type = ALIAS, ir_content = ''FIRST'', mem = None, ir_lineno = 1,
             expanded_bits = [], addresses = [], func = None, opcode = None,
             param1 = None, param2 = None, param3 = None\<rparr>],
        start_addr = None, b_size = 0\<rparr>,
      \<lparr>b_type = MEMORY, b_name = ''Table'', b_lineno = 5,
        b_content =
          [\<lparr>ir_type = MEMORY_DATA, ir_content = ''101'', mem = None, ir_lineno = 6,
             expanded_bits = [], addresses = [], func = None, opcode = None,
             param1 = None, param2 = None, param3 = None\<rparr>,
           \<lparr>ir_type = ALIAS, ir_content = ''THIRD'', mem = None, ir_lineno = 0,
             expanded_bits = [], addresses = [], func = None, opcode = None,
             param1 = None, param2 = None, param3 = None\<rparr>],
        start_addr = None, b_size = 0\<rparr>]"

definition alias_symbols0 :: SymbolTable where
  "alias_symbols0 =
     \<lparr>alias_map = [''KEPT'' \<mapsto> Some 7], reverse_alias_map = [Some 7 \<mapsto> [''KEPT'']],
      function_map = [''main'' \<mapsto> None], macro_map = Map.empty\<rparr>"

definition alias_blocks1 :: "Block list" where
  "alias_blocks1 =
     [\<lparr>b_type = FUNCTION, b_name = ''main'', b_lineno = 0,
        b_content =
          [\<lparr>ir_type = INSTRUCTION, ir_content = ''setreg 1 2 3'', mem = None, ir_lineno = 1,
             expanded_bits = [''10000011000100000000000000100001''], addresses = [16], func = Some ''main'', opcode = Some ''setreg'',
             param1 = Some 1, param2 = Some 2, param3 = Some 3\<rparr>,
           \<lparr>ir_type = ALIAS, ir_content = ''START'', mem = None, ir_lineno = 0,
             expanded_bits = [], addresses = [], func = None, opcode = None,
             param1 = None, param2 = None, param3 = None\<rparr>,
           \<lparr>ir_type = ALIAS, ir_content = ''KEPT'', mem = None, ir_lineno = 0,
             expanded_bits = [], addresses = [], func = None, opcode = None,
             param1 = None, param2 = None, param3 = None\<rparr>],
        start_addr = Some 16, b_size = 1\<rparr>,
      \<lparr>b_type = MEMORY, b_name = ''Params'', b_lineno = 2,
        b_content =
          [\<lparr>ir_type = MEMORY_DATA, ir_content = ''101'', mem = Some ''Params'', ir_lineno = 3,
             expanded_bits = [''10100000000000000000000000000000''], addresses = [80], func = None, opcode = None,
             param1 = None, param2 = None, param3 = None\<rparr>,
           \<lparr>ir_type = ALIAS, ir_content = ''FIRST'', mem = None, ir_lineno = 0,
             expanded_bits = [], addresses = [], func = None, opcode = None,
             param1 = None, param2 = None, param3 = None\<rparr>,
           \<lparr>ir_type = MEMORY_DATA, ir_content = ''101'', mem = Some ''Params'', ir_lineno = 4,
             expanded_bits = [''10100000000000000000000000000000''], addresses = [81], func = None, opcode = None,
             param1 = None, param2 = None, param3 = None\<rparr>,
           \<lparr>ir_type = ALIAS, ir_content = ''SECOND'', mem = None, ir_lineno = 1,
             expanded_bits = [], addresses = [], func = None, opcode = None,
             param1 = None, param2 = None, param3 = None\<rparr>,
           \<lparr>ir_type = ALIAS, ir_content = ''FIRST'', mem = None, ir_lineno = 1,
             expanded_bits = [], addresses = [], func = None, opcode = None,
             param1 = None, param2 = None, param3 = None\<rparr>],
        start_addr = Some 80, b_size = 2\<rparr>,
      \<lparr>b_type = MEMORY, b_name = ''Table'', b_lineno = 5,
        b_content =
          [\<lparr>ir_type = MEMORY_DATA, ir_content = ''101'', mem = Some ''Table'', ir_lineno = 6,
             expanded_bits = [''10100000000000000000000000000000''], addresses = [82], func = None, opcode = None,
             param1 = None, param2 = None, param3 = None\<rparr>,
           \<lparr>ir_type = ALIAS, ir_content = ''THIRD'', mem = None, ir_lineno = 0,
             expanded_bits = [], addresses = [], func = None, opcode = None,
             param1 = None, param2 = None, param3 = None\<rparr>],
        start_addr = Some 82, b_size = 1\<rparr>]"

definition alias_symbols1 :: SymbolTable where
  "alias_symbols1 =
     \<lparr>alias_map = [''KEPT'' \<mapsto> Some 7, ''START'' \<mapsto> Some 16, ''FIRST'' \<mapsto> Some 80,
                   ''SECOND'' \<mapsto> Some 81, ''THIRD'' \<mapsto> Some 82],
      reverse_alias_map = [Some 7 \<mapsto> [''KEPT''], Some 16 \<mapsto> [''START''],
                           Some 80 \<mapsto> [''FIRST''], Some 81 \<mapsto> [''SECOND''],
                           Some 82 \<mapsto> [''THIRD'']],
      function_map = [''main'' \<mapsto> Some 16], macro_map = Map.empty\<rparr>"
section \<open>Properties\<close>

subsection \<open>Section overlap\<close>

lemma check_section_overlap_nonempty:
  assumes "0 < code_size" "0 < data_size"
  shows "check_section_overlap code_start code_size data_start data_size = Inl AsmError
         \<longleftrightarrow> {code_start .. code_start + code_size - 1}
               \<inter> {data_start .. data_start + data_size - 1} \<noteq> {}"
proof -
  have "{code_start .. code_start + code_size - 1}
          \<inter> {data_start .. data_start + data_size - 1}
        = {max code_start data_start
             .. min (code_start + code_size - 1) (data_start + data_size - 1)}"
    by auto
  with assms show ?thesis
    by (auto simp: check_section_overlap_def)
qed

text \<open>
  C5. The claim is that \<open>check_section_overlap\<close> raises exactly when the code range
  and the data range intersect, an empty section intersecting nothing. The code tests
  \<open>code_max < data_min\<close> and \<open>data_max < code_min\<close> only, which is the intersection test
  of two non-empty ranges (\<open>check_section_overlap_nonempty\<close>). With the default bases, 81 words of code and no data at all,
  the data range \<open>[80, 79]\<close> is empty and meets nothing, and the code raises.
\<close>

theorem check_section_overlap_empty_data_raises:
  "check_section_overlap 0 81 80 0 = Inl AsmError
   \<and> {0 .. 0 + 81 - 1} \<inter> {80 .. 80 + 0 - 1} = ({} :: int set)"
  by (simp add: check_section_overlap_def)

subsection \<open>Expansion of one instruction\<close>

lemma int_chars_setreg: "int_chars (rev ''00001'') = Inr [1, 0, 0, 0, 0]"
  by code_simp

lemma lsb_array_16384: "int_to_lsb_array 16384 = [0, 0, 0, 0, 0, 0, 0, 0, 0, 0, 0, 0, 0, 0, 1]"
  by code_simp

lemma lsb_array_0: "int_to_lsb_array 0 = []"
  by code_simp

lemma setreg_first_word:
  "expand_word 5 14 5 6 [1, 0, 0, 0, 0] [0, 0, 0, 0, 0, 0, 0, 0, 0, 0, 0, 0, 0, 0, 1] [] []
     = Inr (''01000000000000000000000000000001'', [], [1], [], [])"
  by code_simp

lemma setreg_second_word:
  "expand_word 5 14 5 6 [] [1] [] []
     = Inr (''10000000000000000000000000100000'', [], [], [], [])"
  by code_simp

lemma setreg_0x4000_words:
  "expand_instr ''00001'' 16384 0 0 5 14 5 6
     = Some (Inr [''01000000000000000000000000000001'', ''10000000000000000000000000100000''])"
  unfolding expand_instr_def int_chars_setreg lsb_array_16384 lsb_array_0
  apply (subst expand_loop.simps)
  apply (simp only: setreg_first_word sum.case prod.case)
  apply (subst expand_loop.simps)
  apply (simp only: setreg_second_word sum.case prod.case)
  apply simp
  done

text \<open>
  C4. With the default widths 5, 14, 5, 6 and the opcode \<open>00001\<close> of \<open>setreg\<close>, the
  operands \<open>p1 = 0x4000\<close>, \<open>p2 = 0\<close>, \<open>p3 = 0\<close> expand to exactly two words; the
  continuation bit, the second character of the word, is 1 in the first and 0 in the
  second.
\<close>

theorem expand_instr_setreg_0x4000:
  "expand_instr ''00001'' 16384 0 0 5 14 5 6
     = Some (Inr [''01000000000000000000000000000001'', ''10000000000000000000000000100000''])
   \<and> ''01000000000000000000000000000001'' ! 1 = CHR ''1''
   \<and> ''10000000000000000000000000100000'' ! 1 = CHR ''0''"
  using setreg_0x4000_words by simp

subsection \<open>Raw data words\<close>

lemma is_bit_not_space: "is_bit c \<Longrightarrow> \<not> py_isspace c"
  by (auto simp: is_bit_def py_isspace_def)

lemma is_bit_not_quote: "is_bit c \<Longrightarrow> c \<noteq> CHR 0x22"
  by (auto simp: is_bit_def)

lemma dropWhile_none: "\<forall>c \<in> set s. \<not> P c \<Longrightarrow> dropWhile P s = s"
  by (cases s) auto

lemma py_strip_no_space: "\<forall>c \<in> set s. \<not> py_isspace c \<Longrightarrow> py_strip s = s"
  by (simp add: py_strip_def dropWhile_none)

lemma split_from_no_space:
  "\<forall>c \<in> set s. \<not> py_isspace c \<Longrightarrow> cur @ s \<noteq> [] \<Longrightarrow> split_from cur s = [rev cur @ s]"
  by (induction s arbitrary: cur) auto

lemma py_split_no_space: "\<forall>c \<in> set s. \<not> py_isspace c \<Longrightarrow> s \<noteq> [] \<Longrightarrow> py_split s = [s]"
  by (simp add: py_split_def split_from_no_space)

text \<open>
  C9. Round trip of a raw bit string: a line of exactly 32 characters, each \<open>0\<close> or
  \<open>1\<close> (so without a double quote), is returned by \<open>parse_data_line\<close> as the single
  word of a one-element list, unchanged, whatever the line number and the symbol table.
\<close>

theorem parse_data_line_roundtrip:
  assumes len: "length s = 32" and bits: "\<forall>c \<in> set s. c = CHR ''0'' \<or> c = CHR ''1''"
  shows "parse_data_line s lineno symtbl = Inr [s]"
proof -
  have b: "\<forall>c \<in> set s. is_bit c" using bits by (simp add: is_bit_def)
  then have ns: "\<forall>c \<in> set s. \<not> py_isspace c" by (blast dest: is_bit_not_space)
  have nq: "CHR 0x22 \<notin> set s" using b by (blast dest: is_bit_not_quote)
  have ne: "s \<noteq> []" using len by auto
  have strip: "py_strip s = s" using ns by (rule py_strip_no_space)
  have split: "concat (py_split s) = s" using ns ne by (simp add: py_split_no_space)
  have all: "list_all is_bit s" using b by (simp add: list_all_iff)
  show ?thesis
    by (simp add: parse_data_line_def Let_def strip split nq all len)
qed

theorem parse_data_line_roundtrip_witness:
  "parse_data_line ''10100000000000000000000000000111'' 7 SymbolTable_init
     = Inr [''10100000000000000000000000000111'']"
  by (rule parse_data_line_roundtrip) simp_all

subsection \<open>The three operands\<close>

lemma params_loop_cong:
  "\<forall>i \<in> set idx. ptoks ! i = ptoks' ! i \<Longrightarrow>
   params_loop ptoks symtbl idx p = params_loop ptoks' symtbl idx p"
  by (induction idx arbitrary: p) (auto split: sum.splits)

lemma parse_three_params_take:
  "parse_three_params ptoks symtbl = parse_three_params (take 3 ptoks) symtbl"
  unfolding parse_three_params_def
  by (simp add: params_loop_cong min_def)

lemma upt_small: "[0..<3] = [0, 1, 2]" "[0..<2] = [0, 1]" "[0..<1] = [0]"
  by (simp_all add: upt_rec)

lemma parse_three_params_cases:
  "parse_three_params ptoks symtbl =
     (case param_or_zero ptoks symtbl 0 of
        Inl e \<Rightarrow> Inl e
      | Inr a \<Rightarrow>
          (case param_or_zero ptoks symtbl 1 of
             Inl e \<Rightarrow> Inl e
           | Inr b \<Rightarrow>
               (case param_or_zero ptoks symtbl 2 of
                  Inl e \<Rightarrow> Inl e
                | Inr c \<Rightarrow> Inr [a, b, c])))"
proof (cases ptoks)
  case Nil
  then show ?thesis by (simp add: parse_three_params_def param_or_zero_def)
next
  case (Cons a r1)
  note c1 = this
  show ?thesis
  proof (cases r1)
    case Nil
    with c1 show ?thesis
      by (simp add: parse_three_params_def param_or_zero_def upt_small split: sum.splits)
  next
    case (Cons b r2)
    note c2 = this
    show ?thesis
    proof (cases r2)
      case Nil
      with c1 c2 show ?thesis
        by (simp add: parse_three_params_def param_or_zero_def upt_small split: sum.splits)
    next
      case (Cons c r3)
      with c1 c2 show ?thesis
        by (simp add: parse_three_params_def param_or_zero_def upt_small min_def
            split: sum.splits)
    qed
  qed
qed

text \<open>
  C10, as stated, says that \<open>parse_three_params\<close> returns three integers for every list
  of tokens. It does not when one of the first three tokens is not an operand: the
  exception of \<open>parse_one_param\<close> passes through.
\<close>

theorem parse_three_params_bad_token_raises:
  "parse_three_params [''zz''] SymbolTable_init = Inl ValueError"
  by code_simp

text \<open>
  C10, amended. \<open>parse_three_params\<close> looks at the first three tokens only, in order.
  When each of them resolves, it returns exactly three integers: the value of the token
  at each position that has one and 0 at each position that has none. When one of them
  does not resolve, the first such failure is raised. Tokens beyond the third are never
  read: the result is that of the first three tokens alone.
\<close>

theorem parse_three_params_first_three:
  "parse_three_params ptoks symtbl =
     (case param_or_zero ptoks symtbl 0 of
        Inl e \<Rightarrow> Inl e
      | Inr a \<Rightarrow>
          (case param_or_zero ptoks symtbl 1 of
             Inl e \<Rightarrow> Inl e
           | Inr b \<Rightarrow>
               (case param_or_zero ptoks symtbl 2 of
                  Inl e \<Rightarrow> Inl e
                | Inr c \<Rightarrow> Inr [a, b, c])))
   \<and> parse_three_params ptoks symtbl = parse_three_params (take 3 ptoks) symtbl"
  using parse_three_params_cases parse_three_params_take by blast

theorem parse_three_params_first_three_witness:
  "parse_three_params [''7'', ''[R1]'', ''0x10'', ''zz''] SymbolTable_init = Inr [7, 5, 16]
   \<and> parse_three_params [''7''] SymbolTable_init = Inr [7, 0, 0]"
proof -
  have a: "param_or_zero [''7'', ''[R1]'', ''0x10'', ''zz''] SymbolTable_init 0 = Inr 7"
    by code_simp
  have b: "param_or_zero [''7'', ''[R1]'', ''0x10'', ''zz''] SymbolTable_init 1 = Inr 5"
    by code_simp
  have c: "param_or_zero [''7'', ''[R1]'', ''0x10'', ''zz''] SymbolTable_init 2 = Inr 16"
    by code_simp
  have d: "param_or_zero [''7''] SymbolTable_init 0 = Inr 7"
    by code_simp
  have e: "param_or_zero [''7''] SymbolTable_init 1 = Inr 0"
    by code_simp
  have f: "param_or_zero [''7''] SymbolTable_init 2 = Inr 0"
    by code_simp
  show ?thesis
    unfolding parse_three_params_first_three [THEN conjunct1] a b c d e f by simp
qed

subsection \<open>Numeric literals\<close>

lemma int_or_ValueError_not_AsmError: "int_or_ValueError s b \<noteq> Inl AsmError"
  by (simp add: int_or_ValueError_def split: option.splits)

lemma length_py_lower: "length (py_lower s) = length s"
  by (simp add: py_lower_def)

lemma parse_any_int_AsmError_iff:
  "parse_any_int x = Inl AsmError \<longleftrightarrow>
     (clean_literal x = [] \<or> py_lower (clean_literal x) = ''0b'' \<or> py_lower (clean_literal x) = ''0x'')"
proof -
  let ?c = "clean_literal x"
  have two: "\<And>p. length p = 2 \<Longrightarrow> (take 2 (py_lower ?c) = p \<and> length ?c = 2) = (py_lower ?c = p)"
    using length_py_lower [of ?c] by auto
  show ?thesis
    unfolding parse_any_int_def Let_def py_startswith_def
    using two [of "''0b''"] two [of "''0x''"] int_or_ValueError_not_AsmError
    by (auto simp: py_lower_def)
qed

lemma digit_char_props:
  "is_digit base c \<Longrightarrow> \<not> int_isspace c \<and> c \<noteq> CHR ''-'' \<and> c \<noteq> CHR ''+'' \<and> c \<noteq> CHR ''_''"
  by (auto simp: is_digit_def digit_value_def int_isspace_def Let_def split: if_splits)

lemma digits_value_snoc_aux:
  "foldl (\<lambda>acc d. acc * base + d) a (map (\<lambda>c. case digit_value c of None \<Rightarrow> 0 | Some d \<Rightarrow> d) ds)
   = nat (foldl (\<lambda>acc c. acc * int base + int (case digit_value c of None \<Rightarrow> 0 | Some d \<Rightarrow> d)) (int a) ds)"
proof (induction ds arbitrary: a)
  case Nil
  show ?case by simp
next
  case (Cons c ds)
  have "int (a * base + (case digit_value c of None \<Rightarrow> 0 | Some d \<Rightarrow> d))
        = int a * int base + int (case digit_value c of None \<Rightarrow> 0 | Some d \<Rightarrow> d)" by simp
  with Cons [of "a * base + (case digit_value c of None \<Rightarrow> 0 | Some d \<Rightarrow> d)"]
  show ?case by simp
qed

lemma literal_value_nonneg_aux:
  "0 \<le> a \<Longrightarrow> 0 \<le> foldl (\<lambda>acc c. acc * int base + int (f c)) a ds"
  by (induction ds arbitrary: a) auto

lemma digits_value_literal:
  "int (digits_value base (map (\<lambda>c. case digit_value c of None \<Rightarrow> 0 | Some d \<Rightarrow> d) ds))
   = literal_value base ds"
  unfolding digits_value_def literal_value_def digits_value_snoc_aux
  using literal_value_nonneg_aux [of 0 base "\<lambda>c. case digit_value c of None \<Rightarrow> 0 | Some d \<Rightarrow> d" ds]
  by simp

lemma read_digits_all:
  "list_all (is_digit base) ds \<Longrightarrow> prev \<or> ds \<noteq> [] \<Longrightarrow>
   read_digits base prev ds = Some (map (\<lambda>c. case digit_value c of None \<Rightarrow> 0 | Some d \<Rightarrow> d) ds)"
proof (induction ds arbitrary: prev)
  case Nil
  then show ?case by simp
next
  case (Cons c ds)
  from Cons.prems have d: "is_digit base c" and rest: "list_all (is_digit base) ds" by simp_all
  from d have nu: "c \<noteq> CHR ''_''" by (simp add: digit_char_props)
  from d obtain v where v: "digit_value c = Some v" "v < base"
    by (auto simp: is_digit_def split: option.splits)
  from Cons.IH [OF rest, of True] show ?case using nu v by simp
qed

lemma py_int_digits:
  assumes ns: "\<forall>c \<in> set s. \<not> int_isspace c"
    and sg: "take 1 s \<noteq> ''-''" "take 1 s \<noteq> ''+''"
    and pre: "strip_base_prefix base s = ds"
    and ne: "ds \<noteq> []" and dg: "list_all (is_digit base) ds"
    and lim: "base = 10 \<longrightarrow> length ds \<le> 4300"
  shows "py_int s base = Some (literal_value base ds)"
proof -
  have t: "rev (dropWhile int_isspace (rev (dropWhile int_isspace s))) = s"
    using ns by (simp add: dropWhile_none)
  have rd: "read_digits base False ds
              = Some (map (\<lambda>c. case digit_value c of None \<Rightarrow> 0 | Some d \<Rightarrow> d) ds)"
    using dg ne by (simp add: read_digits_all)
  show ?thesis
    unfolding py_int_def t Let_def
    using sg pre ne rd lim by (auto simp: int_max_str_digits_def digits_value_literal)
qed

lemma strip_base_prefix_10: "strip_base_prefix 10 s = s"
  by (simp add: strip_base_prefix_def)

lemma second_of_take2: "take 2 s = [a, b] \<Longrightarrow> list_all P s \<Longrightarrow> P a \<and> P b"
  by (cases s; cases "tl s") auto

lemma strip_base_prefix_binary:
  assumes "list_all (is_digit 2) ds"
  shows "strip_base_prefix 2 ds = ds"
proof -
  have nb: "\<not> is_digit 2 CHR ''b''" "\<not> is_digit 2 CHR ''B''"
    by (simp_all add: is_digit_def digit_value_def)
  have "take 2 ds \<noteq> ''0b''" "take 2 ds \<noteq> ''0B''"
    using second_of_take2 [OF _ assms] nb by blast+
  then show ?thesis by (simp add: strip_base_prefix_def)
qed

lemma strip_base_prefix_hex:
  assumes "p = ''0x'' \<or> p = ''0X''" "ds \<noteq> []" "list_all (is_digit 16) ds"
  shows "strip_base_prefix 16 (p @ ds) = ds"
proof -
  obtain c cs where ds: "ds = c # cs" using assms(2) by (cases ds) auto
  with assms(3) have "c \<noteq> CHR ''_''" using digit_char_props [of 16 c] by simp
  with ds assms(1) show ?thesis by (auto simp: strip_base_prefix_def)
qed

lemma digits_no_space: "list_all (is_digit base) ds \<Longrightarrow> \<forall>c \<in> set ds. \<not> int_isspace c"
  using digit_char_props by (auto simp: list_all_iff)

lemma digits_no_sign:
  "list_all (is_digit base) ds \<Longrightarrow> take 1 ds \<noteq> ''-'' \<and> take 1 ds \<noteq> ''+''"
  using digit_char_props [of base "CHR ''-''"] digit_char_props [of base "CHR ''+''"]
  by (cases ds) auto

lemma decimal_lower: "is_digit 10 c \<Longrightarrow> py_lower_char c = c \<and> c \<noteq> CHR ''b'' \<and> c \<noteq> CHR ''x''"
  by (auto simp: is_digit_def digit_value_def py_lower_char_def Let_def split: if_splits)

lemma py_lower_char_prefix:
  "py_lower_char CHR ''0'' = CHR ''0''" "py_lower_char CHR ''b'' = CHR ''b''"
  "py_lower_char CHR ''B'' = CHR ''b''" "py_lower_char CHR ''x'' = CHR ''x''"
  "py_lower_char CHR ''X'' = CHR ''x''"
  by code_simp+

lemma py_startswith_2: "length p = 2 \<Longrightarrow> py_startswith s p = (take 2 s = p)"
  by (simp add: py_startswith_def)

lemma parse_any_int_binary:
  assumes c: "clean_literal x = ''0b'' @ ds \<or> clean_literal x = ''0B'' @ ds"
    and ne: "ds \<noteq> []" and dg: "list_all (is_digit 2) ds"
  shows "parse_any_int x = Inr (literal_value 2 ds)"
proof -
  have st: "py_startswith (py_lower (clean_literal x)) ''0b''"
    using c by (auto simp: py_startswith_2 py_lower_def py_lower_char_prefix)
  have len: "length (clean_literal x) \<noteq> 2" using c ne by auto
  have dr: "drop 2 (clean_literal x) = ds" using c by auto
  have "py_int ds 2 = Some (literal_value 2 ds)"
    using digits_no_space [OF dg] digits_no_sign [OF dg] strip_base_prefix_binary [OF dg] ne dg
    by (intro py_int_digits) auto
  then show ?thesis
    by (simp add: parse_any_int_def Let_def st len dr int_or_ValueError_def)
qed

lemma parse_any_int_hex:
  assumes c: "clean_literal x = ''0x'' @ ds \<or> clean_literal x = ''0X'' @ ds"
    and ne: "ds \<noteq> []" and dg: "list_all (is_digit 16) ds"
  shows "parse_any_int x = Inr (literal_value 16 ds)"
proof -
  have st: "\<not> py_startswith (py_lower (clean_literal x)) ''0b''"
    "py_startswith (py_lower (clean_literal x)) ''0x''"
    using c by (auto simp: py_startswith_2 py_lower_def py_lower_char_prefix)
  have len: "length (clean_literal x) \<noteq> 2" using c ne by auto
  have sp: "\<forall>ch \<in> set (clean_literal x). \<not> int_isspace ch"
    using c digits_no_space [OF dg] by (auto simp: int_isspace_def)
  have sg: "take 1 (clean_literal x) \<noteq> ''-''" "take 1 (clean_literal x) \<noteq> ''+''"
    using c by auto
  have pre: "strip_base_prefix 16 (clean_literal x) = ds"
    using c strip_base_prefix_hex [OF _ ne dg, of "''0x''"]
      strip_base_prefix_hex [OF _ ne dg, of "''0X''"] by auto
  have "py_int (clean_literal x) 16 = Some (literal_value 16 ds)"
    using sp sg pre ne dg by (intro py_int_digits) auto
  then show ?thesis
    by (simp add: parse_any_int_def Let_def st len int_or_ValueError_def)
qed

lemma parse_any_int_decimal:
  assumes ne: "clean_literal x \<noteq> []" and dg: "list_all (is_digit 10) (clean_literal x)"
    and lim: "length (clean_literal x) \<le> 4300"
  shows "parse_any_int x = Inr (literal_value 10 (clean_literal x))"
proof -
  let ?c = "clean_literal x"
  have low: "py_lower ?c = ?c"
    using dg by (simp add: py_lower_def list_all_iff decimal_lower map_idI)
  have nb: "take 2 ?c \<noteq> ''0b''" "take 2 ?c \<noteq> ''0x''"
    using second_of_take2 [OF _ dg] decimal_lower by blast+
  have st: "\<not> py_startswith ?c ''0b''" "\<not> py_startswith ?c ''0x''"
    using nb by (simp_all add: py_startswith_2)
  have "py_int ?c 10 = Some (literal_value 10 ?c)"
    using digits_no_space [OF dg] digits_no_sign [OF dg] ne dg lim
    by (intro py_int_digits) (auto simp: strip_base_prefix_10)
  then show ?thesis
    by (simp add: parse_any_int_def Let_def low st ne int_or_ValueError_def)
qed

text \<open>
  The literals that \<open>parse_any_int\<close> reads. Let the cleaned text be the input without
  surrounding whitespace, underscores and double quotes. The failure is an \<open>AsmError\<close>
  exactly when the cleaned text is empty or is a bare prefix \<open>0b\<close> or \<open>0x\<close> in either
  case. When the cleaned text is \<open>0b\<close> and binary digits, \<open>0x\<close> and hexadecimal digits,
  or up to 4300 decimal digits, at least one digit each time, the result is the value of
  the digits in base 2, 16 or 10.
\<close>

lemma parse_any_int_well_formed:
  "(parse_any_int x = Inl AsmError \<longleftrightarrow>
      (clean_literal x = [] \<or> py_lower (clean_literal x) = ''0b''
       \<or> py_lower (clean_literal x) = ''0x''))
   \<and> (\<forall>ds. (clean_literal x = ''0b'' @ ds \<or> clean_literal x = ''0B'' @ ds)
            \<and> ds \<noteq> [] \<and> list_all (is_digit 2) ds
          \<longrightarrow> parse_any_int x = Inr (literal_value 2 ds))
   \<and> (\<forall>ds. (clean_literal x = ''0x'' @ ds \<or> clean_literal x = ''0X'' @ ds)
            \<and> ds \<noteq> [] \<and> list_all (is_digit 16) ds
          \<longrightarrow> parse_any_int x = Inr (literal_value 16 ds))
   \<and> (clean_literal x \<noteq> [] \<and> list_all (is_digit 10) (clean_literal x)
        \<and> length (clean_literal x) \<le> 4300
      \<longrightarrow> parse_any_int x = Inr (literal_value 10 (clean_literal x)))"
  using parse_any_int_AsmError_iff parse_any_int_binary parse_any_int_hex
    parse_any_int_decimal
  by blast

lemma parse_any_int_well_formed_examples:
  "parse_any_int ''0x_4000'' = Inr 16384 \<and> parse_any_int ''0B101'' = Inr 5
   \<and> parse_any_int '' 1_000 '' = Inr 1000 \<and> parse_any_int ''-5'' = Inr (- 5)"
  by code_simp

text \<open>
  Every failure of \<open>parse_any_int\<close> on a text that has something behind the prefix is
  the \<open>ValueError\<close> of \<open>int\<close>: the function raises \<open>AsmError\<close> itself for the empty
  text and the bare prefix only, and does not catch what \<open>int\<close> raises.
\<close>

lemma parse_any_int_failure:
  "parse_any_int x = Inl e \<Longrightarrow>
   e = (if clean_literal x = [] \<or> py_lower (clean_literal x) = ''0b''
           \<or> py_lower (clean_literal x) = ''0x''
        then AsmError else ValueError)"
proof -
  assume a: "parse_any_int x = Inl e"
  have v: "\<And>s b. int_or_ValueError s b = Inl e \<Longrightarrow> e = ValueError"
    by (auto simp: int_or_ValueError_def split: option.splits)
  have "e = AsmError \<or> e = ValueError"
    using a v unfolding parse_any_int_def Let_def by (auto split: if_splits)
  moreover have "e = AsmError \<longleftrightarrow> (clean_literal x = [] \<or> py_lower (clean_literal x) = ''0b''
           \<or> py_lower (clean_literal x) = ''0x'')"
    using parse_any_int_AsmError_iff [of x] a by simp
  ultimately show ?thesis by auto
qed

text \<open>
  C6. The claim is that \<open>parse_any_int\<close> fails with the assembler's \<open>AsmError\<close> when
  digits are missing behind a prefix, when the text has a character that is not a
  digit of the base, and when the text is empty. The code does so in the first and the
  last case. In the second it fails with the \<open>ValueError\<close> that \<open>int\<close> raises and
  \<open>parse_any_int\<close> does not catch, though \<open>parse_8_bit_data\<close> and \<open>main\<close> catch it
  and raise \<open>AsmError\<close> for the same kind of text: so for \<open>zz\<close>, \<open>12a\<close> and \<open>0x1g\<close>.
\<close>

theorem parse_any_int_bad_digit_ValueError:
  "parse_any_int ''zz'' = Inl ValueError \<and> parse_any_int ''12a'' = Inl ValueError
   \<and> parse_any_int ''0x1g'' = Inl ValueError \<and> parse_any_int ''0b12'' = Inl ValueError
   \<and> parse_any_int ''0x'' = Inl AsmError \<and> parse_any_int ''0B'' = Inl AsmError
   \<and> parse_any_int '' _ '' = Inl AsmError"
  by code_simp


subsection \<open>Aliases in a layout pass\<close>

lemma resolve_alias_unbound:
  assumes "get_alias_addr st (ir_content irline) = None"
  shows "\<exists>st'. resolve_alias S irline st upd = Inr (st', True)
           \<and> get_alias_addr st' (ir_content irline) = Some (S + ir_lineno irline)
           \<and> (\<forall>a. a \<noteq> ir_content irline \<longrightarrow> get_alias_addr st' a = get_alias_addr st a)
           \<and> function_map st' = function_map st \<and> macro_map st' = macro_map st"
  using assms
  by (simp add: resolve_alias_def define_alias_def Let_def get_alias_addr_def get_or_None_def)

lemma resolve_alias_bound:
  assumes "get_alias_addr st (ir_content irline) = Some a"
  shows "resolve_alias S irline st upd = Inr (st, upd)"
  using assms by (simp add: resolve_alias_def Let_def)

text \<open>
  One alias line, in the body of the loop over the lines of a block whose start is \<open>S\<close>:
  the function and the memory block handle it in the same way. An unbound name is bound
  to \<open>S\<close> plus the index in the \<open>lineno\<close> field and \<open>updated\<close> is set, no other
  alias, function or macro changing; with a bound name the symbol table and \<open>updated\<close>
  stay as they are. The line itself, the cursor and the size do not change.
\<close>

lemma alias_line_step:
  assumes "ir_type irline = ALIAS"
  shows "\<exists>st' upd'.
           resolve_function_line opcode_width param1_width param2_width param3_width
               block_name S irline (st, cc, sz, upd)
             = Some (Inr (irline, (st', cc, sz, upd')))
         \<and> resolve_memory_line block_name S irline (st, cd, sz, upd)
             = Some (Inr (irline, (st', cd, sz, upd')))
         \<and> (case get_alias_addr st (ir_content irline) of
              None \<Rightarrow>
                get_alias_addr st' (ir_content irline) = Some (S + ir_lineno irline)
                \<and> upd' = True
                \<and> (\<forall>a. a \<noteq> ir_content irline \<longrightarrow> get_alias_addr st' a = get_alias_addr st a)
                \<and> function_map st' = function_map st \<and> macro_map st' = macro_map st
            | Some a \<Rightarrow> st' = st \<and> upd' = upd)"
proof (cases "get_alias_addr st (ir_content irline)")
  case None
  from resolve_alias_unbound [OF None, of S upd] obtain st' where
    "resolve_alias S irline st upd = Inr (st', True)"
    "get_alias_addr st' (ir_content irline) = Some (S + ir_lineno irline)"
    "\<forall>a. a \<noteq> ir_content irline \<longrightarrow> get_alias_addr st' a = get_alias_addr st a"
    "function_map st' = function_map st" "macro_map st' = macro_map st"
    by blast
  with None assms show ?thesis
    by (intro exI [of _ st'] exI [of _ True])
       (simp add: resolve_function_line_def resolve_memory_line_def)
next
  case (Some a)
  with assms resolve_alias_bound [OF Some, of S upd] show ?thesis
    by (intro exI [of _ st] exI [of _ upd])
       (simp add: resolve_function_line_def resolve_memory_line_def)
qed

subsection \<open>The words of an instruction\<close>

lemma py_setitem_Inr:
  "py_setitem xs i v = Inr ys \<Longrightarrow> length ys = length xs \<and> set ys \<subseteq> insert v (set xs)"
  by (auto simp: py_setitem_def split: if_splits dest: set_update_subset_insert [THEN subsetD])

lemma py_setitem_in_range:
  "0 \<le> i \<Longrightarrow> i < int (length xs) \<Longrightarrow> py_setitem xs i v = Inr (xs[nat i := v])"
  by (simp add: py_setitem_def)

lemma fill_field_Inr:
  "fill_field off idx arr out = Inr (arr', out') \<Longrightarrow>
   arr' = drop (length idx) arr \<and> length out' = length out
   \<and> set out' \<subseteq> set out \<union> set arr \<union> {0}"
proof (induction idx arbitrary: arr out)
  case Nil
  then show ?case by auto
next
  case (Cons i idx)
  show ?case
  proof (cases arr)
    case Nil
    with Cons.prems obtain o1 where o1: "py_setitem out (off + int i) 0 = Inr o1"
      and r: "fill_field off idx [] o1 = Inr (arr', out')"
      by (auto split: sum.splits)
    from Cons.IH [OF r] py_setitem_Inr [OF o1] Nil show ?thesis by auto
  next
    case (Cons b bs)
    with Cons.prems obtain o1 where o1: "py_setitem out (off + int i) b = Inr o1"
      and r: "fill_field off idx bs o1 = Inr (arr', out')"
      by (auto split: sum.splits)
    from Cons.IH [OF r] py_setitem_Inr [OF o1] Cons show ?thesis by auto
  qed
qed

lemma fill_field_in_range:
  "0 \<le> off \<Longrightarrow> \<forall>i \<in> set idx. off + int i < int (length out) \<Longrightarrow>
   \<exists>out'. fill_field off idx arr out = Inr (drop (length idx) arr, out')"
proof (induction idx arbitrary: arr out)
  case Nil
  then show ?case by simp
next
  case (Cons i idx)
  have r: "\<And>v. py_setitem out (off + int i) v = Inr (out[nat (off + int i) := v])"
    using Cons.prems by (intro py_setitem_in_range) auto
  have l: "\<And>v. \<forall>j \<in> set idx. off + int j < int (length (out[nat (off + int i) := v]))"
    using Cons.prems by simp
  show ?case
  proof (cases arr)
    case Nil
    with Cons.IH [where out = "out[nat (off + int i) := 0]" and arr = "[]"] Cons.prems(1) l r
    show ?thesis by simp
  next
    case (Cons b bs)
    with Cons.IH [where out = "out[nat (off + int i) := b]" and arr = bs] \<open>0 \<le> off\<close> l r
    show ?thesis by simp
  qed
qed

lemma length_py_range: "length (py_range w) = nat w"
  by (simp add: py_range_def)

lemma py_range_bound: "i \<in> set (py_range w) \<Longrightarrow> int i < w"
  by (auto simp: py_range_def)

text \<open>What a word is made of, when \<open>expand_word\<close> returns.\<close>

lemma expand_word_Inr:
  assumes "expand_word wop w1 w2 w3 op a1 a2 a3 = Inr (bitstr, op', a1', a2', a3')"
  shows "op' = drop (nat wop) op \<and> a1' = drop (nat w1) a1 \<and> a2' = drop (nat w2) a2
         \<and> a3' = drop (nat w3) a3
         \<and> (\<exists>out31. bitstr = concat (map py_str ((sum_list out31 mod 2) # rev out31))
               \<and> out31 \<noteq> []
               \<and> length out31 = nat (wop + w1 + w2 + w3 + 1)
               \<and> last out31 = (if a1' \<noteq> [] \<or> a2' \<noteq> [] \<or> a3' \<noteq> [] then 1 else 0)
               \<and> set out31 \<subseteq> set op \<union> set a1 \<union> set a2 \<union> set a3 \<union> {0, 1})"
proof -
  let ?n = "nat (wop + w1 + w2 + w3 + 1)"
  let ?t = "wop + w1 + w2 + w3"
  from assms obtain o1 o2 o3 o4 o5 where
    f0: "fill_field 0 (py_range wop) op (replicate ?n 0) = Inr (op', o1)" and
    f1: "fill_field wop (py_range w1) a1 o1 = Inr (a1', o2)" and
    f2: "fill_field (wop + w1) (py_range w2) a2 o2 = Inr (a2', o3)" and
    f3: "fill_field (wop + w1 + w2) (py_range w3) a3 o3 = Inr (a3', o4)" and
    s5: "py_setitem o4 ?t (if a1' \<noteq> [] \<or> a2' \<noteq> [] \<or> a3' \<noteq> [] then 1 else 0) = Inr o5" and
    bs: "bitstr = concat (map py_str (rev (o5 @ [sum_list (py_slice_to o5 (?t + 1)) mod 2])))"
    unfolding expand_word_def Let_def
    by (auto split: sum.splits prod.splits)
  note F0 = fill_field_Inr [OF f0] and F1 = fill_field_Inr [OF f1]
    and F2 = fill_field_Inr [OF f2] and F3 = fill_field_Inr [OF f3]
    and S5 = py_setitem_Inr [OF s5]
  have len4: "length o4 = ?n" using F0 F1 F2 F3 by simp
  have len5: "length o5 = ?n" using S5 len4 by simp
  have tpos: "0 \<le> ?t"
  proof (rule ccontr)
    assume "\<not> 0 \<le> ?t"
    then have "length o4 = 0" "?t < 0" using len4 by simp_all
    then show False using s5 by (simp add: py_setitem_def)
  qed
  then have o5: "o5 = o4[nat ?t := (if a1' \<noteq> [] \<or> a2' \<noteq> [] \<or> a3' \<noteq> [] then 1 else 0)]"
    using s5 len4 by (simp add: py_setitem_def split: if_splits)
  have ne: "o5 \<noteq> []" using len5 tpos by auto
  have lst: "last o5 = (if a1' \<noteq> [] \<or> a2' \<noteq> [] \<or> a3' \<noteq> [] then 1 else 0)"
  proof -
    have "nat ?t = length o4 - 1" using len4 tpos by simp
    moreover have "o4 \<noteq> []" using len4 tpos by auto
    ultimately show ?thesis unfolding o5 by (simp add: last_list_update)
  qed
  have sl: "py_slice_to o5 (?t + 1) = o5"
    using tpos len5 by (simp add: py_slice_to_def)
  have sub: "set o5 \<subseteq> set op \<union> set a1 \<union> set a2 \<union> set a3 \<union> {0, 1}"
  proof -
    have "set o1 \<subseteq> set op \<union> {0}" using F0 by auto
    then have "set o2 \<subseteq> set op \<union> set a1 \<union> {0}" using F1 by auto
    then have "set o3 \<subseteq> set op \<union> set a1 \<union> set a2 \<union> {0}" using F2 by auto
    then have "set o4 \<subseteq> set op \<union> set a1 \<union> set a2 \<union> set a3 \<union> {0}" using F3 by auto
    then show ?thesis using S5 by (auto split: if_splits)
  qed
  have b5: "bitstr = concat (map py_str ((sum_list o5 mod 2) # rev o5))"
    using bs sl by simp
  have drops: "op' = drop (nat wop) op \<and> a1' = drop (nat w1) a1 \<and> a2' = drop (nat w2) a2
         \<and> a3' = drop (nat w3) a3"
    using F0 F1 F2 F3 by (simp add: length_py_range)
  have "\<exists>out31. bitstr = concat (map py_str ((sum_list out31 mod 2) # rev out31))
               \<and> out31 \<noteq> []
               \<and> length out31 = nat (wop + w1 + w2 + w3 + 1)
               \<and> last out31 = (if a1' \<noteq> [] \<or> a2' \<noteq> [] \<or> a3' \<noteq> [] then 1 else 0)
               \<and> set out31 \<subseteq> set op \<union> set a1 \<union> set a2 \<union> set a3 \<union> {0, 1}"
    using b5 ne len5 lst sub by (intro exI [of _ o5] conjI)
  with drops show ?thesis by (intro conjI) (elim conjE, assumption)+
qed

lemma expand_word_total:
  assumes "0 \<le> wop" "0 \<le> w1" "0 \<le> w2" "0 \<le> w3"
  shows "\<exists>bitstr. expand_word wop w1 w2 w3 op a1 a2 a3
           = Inr (bitstr, drop (nat wop) op, drop (nat w1) a1, drop (nat w2) a2, drop (nat w3) a3)"
proof -
  let ?n = "nat (wop + w1 + w2 + w3 + 1)"
  let ?o0 = "replicate ?n (0::int)"
  have r0: "\<forall>i \<in> set (py_range wop). 0 + int i < int (length ?o0)"
    using assms by (auto dest: py_range_bound)
  from fill_field_in_range [OF _ r0, of op] obtain o1 where
    f0: "fill_field 0 (py_range wop) op ?o0 = Inr (drop (nat wop) op, o1)"
    by (auto simp: length_py_range)
  have l1: "length o1 = ?n" using fill_field_Inr [OF f0] by simp
  have r1: "\<forall>i \<in> set (py_range w1). wop + int i < int (length o1)"
    using assms l1 by (auto dest: py_range_bound)
  from fill_field_in_range [OF assms(1) r1, of a1] obtain o2 where
    f1: "fill_field wop (py_range w1) a1 o1 = Inr (drop (nat w1) a1, o2)"
    by (auto simp: length_py_range)
  have l2: "length o2 = ?n" using fill_field_Inr [OF f1] l1 by simp
  have r2: "\<forall>i \<in> set (py_range w2). (wop + w1) + int i < int (length o2)"
    using assms l2 by (auto dest: py_range_bound)
  have p2: "0 \<le> wop + w1" using assms by simp
  from fill_field_in_range [OF p2 r2, of a2] obtain o3 where
    f2: "fill_field (wop + w1) (py_range w2) a2 o2 = Inr (drop (nat w2) a2, o3)"
    by (auto simp: length_py_range)
  have l3: "length o3 = ?n" using fill_field_Inr [OF f2] l2 by simp
  have r3: "\<forall>i \<in> set (py_range w3). (wop + w1 + w2) + int i < int (length o3)"
    using assms l3 by (auto dest: py_range_bound)
  have p3: "0 \<le> wop + w1 + w2" using assms by simp
  from fill_field_in_range [OF p3 r3, of a3] obtain o4 where
    f3: "fill_field (wop + w1 + w2) (py_range w3) a3 o3 = Inr (drop (nat w3) a3, o4)"
    by (auto simp: length_py_range)
  have l4: "length o4 = ?n" using fill_field_Inr [OF f3] l3 by simp
  have s5: "\<And>v. py_setitem o4 (wop + w1 + w2 + w3) v = Inr (o4[nat (wop + w1 + w2 + w3) := v])"
    using assms l4 by (intro py_setitem_in_range) auto
  show ?thesis
    unfolding expand_word_def Let_def by (simp add: f0 f1 f2 f3 s5)
qed

lemma py_str_bit: "py_str 0 = ''0''" "py_str 1 = ''1''"
  by code_simp+

lemma concat_py_str_bits:
  "set bs \<subseteq> {0, 1} \<Longrightarrow> concat (map py_str bs) = map bit_char bs"
  by (induction bs) (auto simp: py_str_bit bit_char_def)

lemma xor_bits_Cons: "xor_bits (c # w) = ((c = CHR ''1'') \<noteq> xor_bits w)"
  by (simp add: xor_bits_def)

lemma xor_bits_map_bit_char:
  "set bs \<subseteq> {0, 1} \<Longrightarrow> xor_bits (map bit_char bs) = odd (sum_list bs)"
proof (induction bs)
  case Nil
  show ?case by (simp add: xor_bits_def)
next
  case (Cons b bs)
  then have "b = 0 \<or> b = 1" and "set bs \<subseteq> {0, 1}" by auto
  with Cons.IH show ?case by (auto simp: xor_bits_Cons bit_char_def)
qed

lemma is_bit_bit_char: "list_all is_bit (map bit_char bs)"
  by (induction bs) (simp_all add: is_bit_def bit_char_def)

text \<open>The second character of a word is its continuation bit.\<close>

lemma expand_word_continuation:
  assumes "expand_word wop w1 w2 w3 op a1 a2 a3 = Inr (bitstr, op', a1', a2', a3')"
  shows "take 1 (drop 1 bitstr) = (if a1' \<noteq> [] \<or> a2' \<noteq> [] \<or> a3' \<noteq> [] then ''1'' else ''0'')"
proof -
  from expand_word_Inr [OF assms] obtain out31 where
    b: "bitstr = concat (map py_str ((sum_list out31 mod 2) # rev out31))"
    and ne: "out31 \<noteq> []"
    and lst: "last out31 = (if a1' \<noteq> [] \<or> a2' \<noteq> [] \<or> a3' \<noteq> [] then 1 else 0)"
    by blast
  have p: "\<exists>c. py_str (sum_list out31 mod 2) = [c]"
  proof -
    have "sum_list out31 mod 2 = 0 \<or> sum_list out31 mod 2 = 1" by presburger
    then show ?thesis by (auto simp: py_str_bit)
  qed
  have r: "rev out31 = last out31 # rev (butlast out31)"
    using ne by (metis append_butlast_last_id rev.simps(2) rev_rev_ident rev_singleton_conv rev_append append_Cons append_Nil)
  from p obtain c where c: "py_str (sum_list out31 mod 2) = [c]" by blast
  have "drop 1 bitstr = py_str (last out31) @ concat (map py_str (rev (butlast out31)))"
    unfolding b by (simp add: c r)
  then show ?thesis using lst by (auto simp: py_str_bit)
qed

text \<open>A word built from bits is a string of 0 and 1 of even parity.\<close>

lemma expand_word_parity:
  assumes w: "expand_word wop w1 w2 w3 op a1 a2 a3 = Inr (bitstr, op', a1', a2', a3')"
    and bits: "set op \<union> set a1 \<union> set a2 \<union> set a3 \<subseteq> {0, 1}"
  shows "length bitstr = nat (wop + w1 + w2 + w3 + 2) \<and> list_all is_bit bitstr \<and> \<not> xor_bits bitstr"
proof -
  from expand_word_Inr [OF w] obtain out31 where
    b: "bitstr = concat (map py_str ((sum_list out31 mod 2) # rev out31))"
    and ne: "out31 \<noteq> []"
    and len: "length out31 = nat (wop + w1 + w2 + w3 + 1)"
    and sub: "set out31 \<subseteq> set op \<union> set a1 \<union> set a2 \<union> set a3 \<union> {0, 1}"
    by blast
  let ?bs = "(sum_list out31 mod 2) # rev out31"
  have s01: "set ?bs \<subseteq> {0, 1}"
  proof -
    have "sum_list out31 mod 2 = 0 \<or> sum_list out31 mod 2 = 1" by presburger
    moreover have "set out31 \<subseteq> {0, 1}" using sub bits by auto
    ultimately show ?thesis by auto
  qed
  have bm: "bitstr = map bit_char ?bs" unfolding b using s01 by (rule concat_py_str_bits)
  have "sum_list ?bs = sum_list out31 mod 2 + sum_list out31" by (simp add: sum_list_rev)
  then have ev: "even (sum_list ?bs)" by presburger
  have l: "length bitstr = nat (wop + w1 + w2 + w3 + 2)"
    using bm len ne by (cases out31) (auto simp: nat_add_distrib)
  show ?thesis
    using l ev xor_bits_map_bit_char [OF s01] is_bit_bit_char [of ?bs] bm by simp
qed

lemma continuation_chain_single:
  "continuation_chain [w] = (take 1 (drop 1 w) = ''0'')"
  by (simp add: continuation_chain_def)

lemma continuation_chain_Cons:
  "continuation_chain ws \<Longrightarrow> take 1 (drop 1 w) = ''1'' \<Longrightarrow> continuation_chain (w # ws)"
  by (cases ws) (simp_all add: continuation_chain_def)

lemma expand_loop_step:
  assumes IH: "\<And>wop w1 w2 w3 op a1 a2 a3 result y.
      loop wop w1 w2 w3 op a1 a2 a3 result = Some y \<Longrightarrow> loop_post wop w1 w2 w3 op a1 a2 a3 result y"
    and body: "(case expand_word wop w1 w2 w3 op a1 a2 a3 of
          Inl e \<Rightarrow> Some (Inl e)
        | Inr (bitstr, op_arr', arr1', arr2', arr3') \<Rightarrow>
            if arr1' = [] \<and> arr2' = [] \<and> arr3' = [] then Some (Inr (result @ [bitstr]))
            else loop wop w1 w2 w3 op_arr' arr1' arr2' arr3' (result @ [bitstr])) = Some y"
  shows "loop_post wop w1 w2 w3 op a1 a2 a3 result y"
proof -
  have "\<forall>ws. y = Inr ws \<longrightarrow>
           (\<exists>new. ws = result @ new \<and> continuation_chain new
              \<and> (set op \<union> set a1 \<union> set a2 \<union> set a3 \<subseteq> {0, 1}
                  \<longrightarrow> (\<forall>w \<in> set new. word_ok (wop + w1 + w2 + w3 + 2) w)))"
  proof (cases "expand_word wop w1 w2 w3 op a1 a2 a3")
    case (Inl e)
    with body have "y = Inl e" by simp
    then show ?thesis by simp
  next
    case (Inr r)
    then obtain bitstr op' a1' a2' a3' where
      w: "expand_word wop w1 w2 w3 op a1 a2 a3 = Inr (bitstr, op', a1', a2', a3')"
      by (cases r) auto
    note c = expand_word_continuation [OF w]
    note d = expand_word_Inr [OF w]
    have ok: "set op \<union> set a1 \<union> set a2 \<union> set a3 \<subseteq> {0, 1}
              \<Longrightarrow> word_ok (wop + w1 + w2 + w3 + 2) bitstr"
      using expand_word_parity [OF w] by (simp add: word_ok_def)
    have dr: "op' = drop (nat wop) op" "a1' = drop (nat w1) a1" "a2' = drop (nat w2) a2"
      "a3' = drop (nat w3) a3"
      using d by blast+
    have sub: "set op' \<union> set a1' \<union> set a2' \<union> set a3' \<subseteq> set op \<union> set a1 \<union> set a2 \<union> set a3"
      unfolding dr by (auto dest: in_set_dropD)
    show ?thesis
    proof (cases "a1' = [] \<and> a2' = [] \<and> a3' = []")
      case True
      with body w have y: "y = Inr (result @ [bitstr])" by simp
      have "\<not> (a1' \<noteq> [] \<or> a2' \<noteq> [] \<or> a3' \<noteq> [])" using True by blast
      then have "take 1 (drop 1 bitstr) = ''0''" by (simp only: c if_False)
      then have "continuation_chain [bitstr]" by (simp only: continuation_chain_single)
      with ok have "\<exists>new. result @ [bitstr] = result @ new \<and> continuation_chain new
              \<and> (set op \<union> set a1 \<union> set a2 \<union> set a3 \<subseteq> {0, 1}
                  \<longrightarrow> (\<forall>w \<in> set new. word_ok (wop + w1 + w2 + w3 + 2) w))"
        by (intro exI [of _ "[bitstr]"]) simp
      with y show ?thesis by simp
    next
      case False
      with body w have r: "loop wop w1 w2 w3 op' a1' a2' a3' (result @ [bitstr]) = Some y"
        by simp
      have c1: "take 1 (drop 1 bitstr) = ''1''"
      proof -
        from False have "a1' \<noteq> [] \<or> a2' \<noteq> [] \<or> a3' \<noteq> []" by blast
        then show ?thesis by (simp only: c if_True)
      qed
      show ?thesis
      proof (intro allI impI)
        fix ws assume "y = Inr ws"
        with IH [OF r, unfolded loop_post_def] obtain new where
          n: "ws = (result @ [bitstr]) @ new" "continuation_chain new"
          "set op' \<union> set a1' \<union> set a2' \<union> set a3' \<subseteq> {0, 1}
             \<longrightarrow> (\<forall>w \<in> set new. word_ok (wop + w1 + w2 + w3 + 2) w)"
          by blast
        have "ws = result @ (bitstr # new)" using n(1) by simp
        moreover have "continuation_chain (bitstr # new)"
          using n(2) c1 by (rule continuation_chain_Cons)
        moreover have "set op \<union> set a1 \<union> set a2 \<union> set a3 \<subseteq> {0, 1}
              \<longrightarrow> (\<forall>w \<in> set (bitstr # new). word_ok (wop + w1 + w2 + w3 + 2) w)"
        proof
          assume b: "set op \<union> set a1 \<union> set a2 \<union> set a3 \<subseteq> {0, 1}"
          then have "set op' \<union> set a1' \<union> set a2' \<union> set a3' \<subseteq> {0, 1}"
            using sub by (rule subset_trans [rotated])
          with n(3) ok [OF b] show "\<forall>w \<in> set (bitstr # new). word_ok (wop + w1 + w2 + w3 + 2) w"
            by simp
        qed
        ultimately show "\<exists>new. ws = result @ new \<and> continuation_chain new
              \<and> (set op \<union> set a1 \<union> set a2 \<union> set a3 \<subseteq> {0, 1}
                  \<longrightarrow> (\<forall>w \<in> set new. word_ok (wop + w1 + w2 + w3 + 2) w))"
          by blast
      qed
    qed
  qed
  then show ?thesis by (simp add: loop_post_def)
qed

lemma expand_loop_partial:
  assumes a: "expand_loop wop w1 w2 w3 op a1 a2 a3 result = Some y"
  shows "loop_post wop w1 w2 w3 op a1 a2 a3 result y"
proof (rule expand_loop.raw_induct [where P = loop_post, OF _ a])
  fix loop wop w1 w2 w3 op a1 a2 a3 result y
  assume IH: "\<And>wop w1 w2 w3 op a1 a2 a3 result y.
      loop wop w1 w2 w3 op a1 a2 a3 result = Some y \<Longrightarrow> loop_post wop w1 w2 w3 op a1 a2 a3 result y"
    and body: "(case expand_word wop w1 w2 w3 op a1 a2 a3 of
          Inl e \<Rightarrow> Some (Inl e)
        | Inr (bitstr, op_arr', arr1', arr2', arr3') \<Rightarrow>
            if arr1' = [] \<and> arr2' = [] \<and> arr3' = [] then Some (Inr (result @ [bitstr]))
            else loop wop w1 w2 w3 op_arr' arr1' arr2' arr3' (result @ [bitstr])) = Some y"
  show "loop_post wop w1 w2 w3 op a1 a2 a3 result y"
    using IH body by (rule expand_loop_step)
qed

lemma expand_loop_total:
  assumes "0 \<le> wop" "0 < w1" "0 < w2" "0 < w3"
  shows "\<exists>ws. expand_loop wop w1 w2 w3 op a1 a2 a3 result = Some (Inr ws)"
proof (induction "length a1 + length a2 + length a3" arbitrary: op a1 a2 a3 result
       rule: less_induct)
  case less
  from expand_word_total [of wop w1 w2 w3 op a1 a2 a3] assms obtain bitstr where
    w: "expand_word wop w1 w2 w3 op a1 a2 a3
          = Inr (bitstr, drop (nat wop) op, drop (nat w1) a1, drop (nat w2) a2, drop (nat w3) a3)"
    by auto
  show ?case
  proof (cases "drop (nat w1) a1 = [] \<and> drop (nat w2) a2 = [] \<and> drop (nat w3) a3 = []")
    case True
    then show ?thesis by (subst expand_loop.simps) (simp add: w)
  next
    case False
    then have "length (drop (nat w1) a1) + length (drop (nat w2) a2) + length (drop (nat w3) a3)
                < length a1 + length a2 + length a3"
      using assms by auto
    from less [OF this] obtain ws where
      "expand_loop wop w1 w2 w3 (drop (nat wop) op) (drop (nat w1) a1) (drop (nat w2) a2)
         (drop (nat w3) a3) (result @ [bitstr]) = Some (Inr ws)"
      by blast
    with False show ?thesis by (subst expand_loop.simps) (simp add: w)
  qed
qed

lemma int_or_ValueError_bit:
  "int_or_ValueError ''0'' 10 = Inr 0" "int_or_ValueError ''1'' 10 = Inr 1"
  by code_simp+

lemma int_chars_bits:
  "list_all is_bit s \<Longrightarrow> \<exists>arr. int_chars s = Inr arr \<and> set arr \<subseteq> {0, 1}"
  by (induction s) (auto simp: is_bit_def int_or_ValueError_bit)

lemma lsb_array_bits: "set (int_to_lsb_array v) \<subseteq> {0, 1}"
proof (induction v rule: int_to_lsb_array.induct)
  case (1 v)
  have "v AND 1 = 0 \<or> v AND 1 = 1" by (simp add: and_one_eq) presburger
  with 1 show ?case by (subst int_to_lsb_array.simps) auto
qed

lemma expand_instr_partial:
  assumes "expand_instr opcode_bits p1 p2 p3 wop w1 w2 w3 = Some (Inr ws)"
  shows "continuation_chain ws
         \<and> (list_all is_bit opcode_bits \<longrightarrow> (\<forall>w \<in> set ws. word_ok (wop + w1 + w2 + w3 + 2) w))"
proof -
  from assms obtain op where op: "int_chars (rev opcode_bits) = Inr op"
    and l: "expand_loop wop w1 w2 w3 op (int_to_lsb_array p1) (int_to_lsb_array p2)
              (int_to_lsb_array p3) [] = Some (Inr ws)"
    by (auto simp: expand_instr_def split: sum.splits)
  from expand_loop_partial [OF l, unfolded loop_post_def] obtain new where
    n: "ws = [] @ new" "continuation_chain new"
    "set op \<union> set (int_to_lsb_array p1) \<union> set (int_to_lsb_array p2) \<union> set (int_to_lsb_array p3)
       \<subseteq> {0, 1} \<longrightarrow> (\<forall>w \<in> set new. word_ok (wop + w1 + w2 + w3 + 2) w)"
    by blast
  have "list_all is_bit opcode_bits \<Longrightarrow> set op \<subseteq> {0, 1}"
    using int_chars_bits [of "rev opcode_bits"] op by auto
  with n lsb_array_bits [of p1] lsb_array_bits [of p2] lsb_array_bits [of p3]
  show ?thesis by auto
qed

lemma expand_instr_total:
  assumes "list_all is_bit opcode_bits" "0 \<le> wop" "0 < w1" "0 < w2" "0 < w3"
  shows "\<exists>ws. expand_instr opcode_bits p1 p2 p3 wop w1 w2 w3 = Some (Inr ws)"
proof -
  from int_chars_bits [of "rev opcode_bits"] assms(1) obtain op where
    "int_chars (rev opcode_bits) = Inr op" by auto
  with expand_loop_total [OF assms(2-5)] show ?thesis
    by (simp add: expand_instr_def)
qed

text \<open>
  C3. Whatever the opcode string, the operands and the field widths, when
  \<open>expand_instr\<close> returns a list of words the list is not empty and the continuation
  bit, the second character of a word, is 1 in every word but the last and 0 in the
  last. It does return, for every opcode bit string and all operands, when the opcode
  width is not negative and the three operand widths are positive, as the default
  widths are.
\<close>

theorem expand_instr_continuation:
  "(\<forall>ws. expand_instr opcode_bits p1 p2 p3 wop w1 w2 w3 = Some (Inr ws)
          \<longrightarrow> continuation_chain ws)
   \<and> (list_all is_bit opcode_bits \<and> 0 \<le> wop \<and> 0 < w1 \<and> 0 < w2 \<and> 0 < w3
        \<longrightarrow> (\<exists>ws. expand_instr opcode_bits p1 p2 p3 wop w1 w2 w3 = Some (Inr ws)))"
  using expand_instr_partial expand_instr_total by blast

theorem expand_instr_continuation_witness:
  "continuation_chain
     [''01000000000000000000000000000001'', ''10000000000000000000000000100000'']
   \<and> (\<exists>ws. expand_instr ''00001'' 16384 0 0 5 14 5 6 = Some (Inr ws))"
proof -
  have b: "list_all is_bit ''00001''" by (simp add: is_bit_def)
  from expand_instr_continuation [of "''00001''" 16384 0 0 5 14 5 6] b setreg_0x4000_words
  show ?thesis by simp
qed

text \<open>
  C1, as stated, covers the words of data lines too. \<open>parse_data_line\<close> emits a raw
  bit string as it is written, padded with \<open>0\<close>, and adds no parity bit: the line \<open>1\<close>
  becomes a word with a single \<open>1\<close>, of odd parity.
\<close>

theorem parse_data_line_odd_parity:
  "parse_data_line ''1'' 0 SymbolTable_init = Inr [''10000000000000000000000000000000'']
   \<and> xor_bits ''10000000000000000000000000000000''"
  by code_simp

text \<open>
  C1, amended. Every word that \<open>expand_instr\<close> returns for an opcode bit string has
  as many characters as the four field widths and the two flag bits make (32 with the
  default widths), each \<open>0\<close> or \<open>1\<close>, and has even parity: the XOR of its bits is 0.
  \<open>expand_instr\<close> returns for every opcode bit string when the opcode width is not
  negative and the operand widths are positive. Nothing is said of the words of data
  lines.
\<close>

theorem expand_instr_even_parity:
  "(\<forall>ws. list_all is_bit opcode_bits
          \<and> expand_instr opcode_bits p1 p2 p3 wop w1 w2 w3 = Some (Inr ws)
          \<longrightarrow> (\<forall>w \<in> set ws. length w = nat (wop + w1 + w2 + w3 + 2)
                                \<and> list_all is_bit w \<and> \<not> xor_bits w))
   \<and> (list_all is_bit opcode_bits \<and> 0 \<le> wop \<and> 0 < w1 \<and> 0 < w2 \<and> 0 < w3
        \<longrightarrow> (\<exists>ws. expand_instr opcode_bits p1 p2 p3 wop w1 w2 w3 = Some (Inr ws)))"
  using expand_instr_partial [of opcode_bits p1 p2 p3 wop w1 w2 w3]
    expand_instr_total [of opcode_bits wop w1 w2 w3 p1 p2 p3]
  unfolding word_ok_def by blast

theorem expand_instr_even_parity_witness:
  "length ''01000000000000000000000000000001'' = 32
   \<and> list_all is_bit ''01000000000000000000000000000001''
   \<and> \<not> xor_bits ''01000000000000000000000000000001''
   \<and> length ''10000000000000000000000000100000'' = 32
   \<and> list_all is_bit ''10000000000000000000000000100000''
   \<and> \<not> xor_bits ''10000000000000000000000000100000''
   \<and> (\<exists>ws. expand_instr ''00001'' 16384 0 0 5 14 5 6 = Some (Inr ws))"
proof -
  have b: "list_all is_bit ''00001''" by (simp add: is_bit_def)
  from expand_instr_even_parity [of "''00001''" 16384 0 0 5 14 5 6] b setreg_0x4000_words
  show ?thesis by simp
qed

subsection \<open>The output of the lines after a pass\<close>

lemma for_each_Cons_Inr:
  assumes "for_each body (x # xs) s = Some (Inr (ys, s''))"
  obtains x' s' xs' where "body x s = Some (Inr (x', s'))"
    and "for_each body xs s' = Some (Inr (xs', s''))" and "ys = x' # xs'"
  using assms by (auto split: option.splits sum.splits prod.splits)

lemma for_each_list_all2:
  assumes "for_each body xs s = Some (Inr (ys, s'))"
    and "\<And>x s x' s'. body x s = Some (Inr (x', s')) \<Longrightarrow> R x x'"
  shows "list_all2 R xs ys"
  using assms(1)
proof (induction xs arbitrary: s ys)
  case Nil
  then show ?case by simp
next
  case (Cons x xs)
  from Cons.prems obtain x' s1 xs' where
    "body x s = Some (Inr (x', s1))" "for_each body xs s1 = Some (Inr (xs', s'))" "ys = x' # xs'"
    by (rule for_each_Cons_Inr)
  with Cons.IH assms(2) show ?case by auto
qed

lemma length_range_list: "length (range_list a (a + int n)) = n"
  by (simp add: range_list_def)

lemma nth_range_list: "i < n \<Longrightarrow> range_list a (a + int n) ! i = a + int i"
  by (simp add: range_list_def)

lemma line_ok_range:
  "length ws = n \<Longrightarrow> expanded_bits l = ws \<Longrightarrow> addresses l = range_list a (a + int n)
   \<Longrightarrow> line_ok l"
  by (simp add: line_ok_def length_range_list nth_range_list)

lemma resolve_instruction_Inr:
  assumes "resolve_instruction wop w1 w2 w3 name st cc l = Some (Inr (l', n))"
  shows "\<exists>opc p1 p2 p3 ws. ws \<noteq> [] \<and> n = int (length ws)
           \<and> l' = l\<lparr>opcode := Some opc, param1 := Some p1, param2 := Some p2,
                    param3 := Some p3, func := Some name, expanded_bits := ws,
                    addresses := range_list cc (cc + int (length ws))\<rparr>"
proof -
  from assms obtain opc bits p1 p2 p3 ws where
    e: "expand_instr bits p1 p2 p3 wop w1 w2 w3 = Some (Inr ws)"
    and l: "l' = l\<lparr>opcode := Some opc, param1 := Some p1, param2 := Some p2,
                    param3 := Some p3, func := Some name, expanded_bits := ws,
                    addresses := range_list cc (cc + int (length ws))\<rparr>"
    and n: "n = int (length ws)"
    unfolding resolve_instruction_def Let_def
    by (auto split: list.splits option.splits sum.splits if_splits)
  from expand_instr_partial [OF e] have "ws \<noteq> []" by (simp add: continuation_chain_def)
  with l n show ?thesis by blast
qed

lemma parse_data_line_Inr: "parse_data_line s k st = Inr ws \<Longrightarrow> length ws = 1"
  by (auto simp: parse_data_line_def Let_def split: if_splits sum.splits)

lemma resolve_function_line_after:
  assumes "resolve_function_line wop w1 w2 w3 name S l s = Some (Inr (l', s'))"
  shows "line_after_pass FUNCTION l l'"
proof -
  obtain st cc sz u where s: "s = (st, cc, sz, u)" by (cases s) auto
  show ?thesis
  proof (cases "ir_type l = INSTRUCTION")
    case True
    with assms s obtain n where "resolve_instruction wop w1 w2 w3 name st cc l = Some (Inr (l', n))"
      by (auto simp: resolve_function_line_def split: option.splits sum.splits)
    from resolve_instruction_Inr [OF this] obtain opc p1 p2 p3 ws where
      w: "ws \<noteq> []" and l: "l' = l\<lparr>opcode := Some opc, param1 := Some p1, param2 := Some p2,
                    param3 := Some p3, func := Some name, expanded_bits := ws,
                    addresses := range_list cc (cc + int (length ws))\<rparr>"
      by blast
    have "line_ok l'" by (rule line_ok_range [of ws "length ws" _ cc]) (simp_all add: l)
    with w l True show ?thesis by (simp add: line_after_pass_def produces_output_def)
  next
    case False
    with assms s have "l' = l"
      by (auto simp: resolve_function_line_def split: if_splits sum.splits)
    with False show ?thesis by (simp add: line_after_pass_def produces_output_def)
  qed
qed

lemma resolve_memory_line_after:
  assumes "resolve_memory_line name S l s = Some (Inr (l', s'))"
  shows "line_after_pass MEMORY l l'"
proof -
  obtain st cd sz u where s: "s = (st, cd, sz, u)" by (cases s) auto
  show ?thesis
  proof (cases "ir_type l = MEMORY_DATA")
    case True
    with assms s obtain ws where p: "parse_data_line (ir_content l) (ir_lineno l) st = Inr ws"
      and l: "l' = l\<lparr>mem := Some name, expanded_bits := ws,
                     addresses := range_list cd (cd + int (length ws))\<rparr>"
      by (auto simp: resolve_memory_line_def split: sum.splits)
    have w: "ws \<noteq> []" using parse_data_line_Inr [OF p] by auto
    have "line_ok l'" by (rule line_ok_range [of ws "length ws" _ cd]) (simp_all add: l)
    with w l True show ?thesis by (simp add: line_after_pass_def produces_output_def)
  next
    case False
    with assms s have "l' = l"
      by (auto simp: resolve_memory_line_def split: if_splits sum.splits)
    with False show ?thesis by (simp add: line_after_pass_def produces_output_def)
  qed
qed

lemma list_all2_unchanged: "list_all2 (line_after_pass MACRO) ls ls"
  by (simp add: list_all2_same line_after_pass_def produces_output_def)

lemma resolve_block_after:
  assumes "resolve_block wop w1 w2 w3 b s = Some (Inr (b', s'))"
  shows "block_after_pass b b'"
proof -
  obtain st cc cd u where s: "s = (st, cc, cd, u)" by (cases s) auto
  consider (f) "b_type b = FUNCTION" | (m) "b_type b = MEMORY" | (o) "b_type b = MACRO"
    by (cases "b_type b") auto
  then show ?thesis
  proof cases
    case f
    with assms s obtain st1 S ls' t where
      r: "for_each (resolve_function_line wop w1 w2 w3 (b_name b) S) (b_content b)
            (st1, cc, 0, u) = Some (Inr (ls', t))"
      and b': "b_content b' = ls'" "b_type b' = b_type b"
      unfolding resolve_block_def Let_def
      by (auto split: option.splits sum.splits prod.splits)
    from for_each_list_all2 [OF r, of "line_after_pass FUNCTION"] resolve_function_line_after
    have "list_all2 (line_after_pass FUNCTION) (b_content b) ls'" by blast
    with b' f show ?thesis by (simp add: block_after_pass_def)
  next
    case m
    with assms s obtain ls' t where
      r: "for_each (resolve_memory_line (b_name b) cd) (b_content b)
            (st, cd, 0, u) = Some (Inr (ls', t))"
      and b': "b_content b' = ls'" "b_type b' = b_type b"
      unfolding resolve_block_def Let_def
      by (auto split: option.splits sum.splits prod.splits)
    from for_each_list_all2 [OF r, of "line_after_pass MEMORY"] resolve_memory_line_after
    have "list_all2 (line_after_pass MEMORY) (b_content b) ls'" by blast
    with b' m show ?thesis by (simp add: block_after_pass_def)
  next
    case o
    with assms s have "b' = b" by (simp add: resolve_block_def)
    with o list_all2_unchanged show ?thesis by (simp add: block_after_pass_def)
  qed
qed

lemma resolve_symbols_after:
  assumes "resolve_symbols blocks st cs ds wop w1 w2 w3 = Some (Inr (blocks', st', upd))"
  shows "list_all2 block_after_pass blocks blocks'"
proof -
  from assms obtain t where
    "for_each (resolve_block wop w1 w2 w3) blocks (st, cs, ds, False) = Some (Inr (blocks', t))"
    unfolding resolve_symbols_def by (auto split: option.splits sum.splits prod.splits)
  from for_each_list_all2 [OF this, of block_after_pass] resolve_block_after
  show ?thesis by blast
qed

lemma after_pass_output:
  assumes "list_all2 block_after_pass blocks blocks'"
  shows "\<forall>b' \<in> set blocks'. \<forall>l' \<in> set (b_content b').
           produces_output (b_type b') l' \<longrightarrow> expanded_bits l' \<noteq> [] \<and> line_ok l'"
proof (intro ballI impI)
  fix b' l' assume b': "b' \<in> set blocks'" and l': "l' \<in> set (b_content b')"
    and p: "produces_output (b_type b') l'"
  from assms b' obtain b where b: "block_after_pass b b'"
    by (auto simp: list_all2_conv_all_nth in_set_conv_nth)
  then have t: "b_type b' = b_type b"
    and ls: "list_all2 (line_after_pass (b_type b)) (b_content b) (b_content b')"
    by (simp_all add: block_after_pass_def)
  from ls l' obtain l where l: "line_after_pass (b_type b) l l'"
    by (auto simp: list_all2_conv_all_nth in_set_conv_nth)
  then have "ir_type l' = ir_type l" by (simp add: line_after_pass_def)
  with p t have "produces_output (b_type b) l" by (simp add: produces_output_def)
  with l show "expanded_bits l' \<noteq> [] \<and> line_ok l'" by (simp add: line_after_pass_def)
qed

subsection \<open>A pass only adds bindings\<close>

lemma binds_le_refl: "binds_le st st"
  by (simp add: binds_le_def)

lemma binds_le_trans: "binds_le a b \<Longrightarrow> binds_le b c \<Longrightarrow> binds_le a c"
  by (simp add: binds_le_def)

lemma resolve_alias_le:
  assumes "resolve_alias S l st u = Inr (st', u')"
  shows "binds_le st st' \<and> get_alias_addr st' (ir_content l) \<noteq> None"
proof (cases "get_alias_addr st (ir_content l)")
  case None
  from resolve_alias_unbound [OF None, of S u] assms obtain
    b: "get_alias_addr st' (ir_content l) = Some (S + ir_lineno l)"
    and o: "\<forall>a. a \<noteq> ir_content l \<longrightarrow> get_alias_addr st' a = get_alias_addr st a"
    and f: "function_map st' = function_map st" and m: "macro_map st' = macro_map st"
    by auto
  have "get_alias_addr st' n = Some a" if "get_alias_addr st n = Some a" for n a
  proof -
    from that None have "n \<noteq> ir_content l" by auto
    with o that show ?thesis by simp
  qed
  with b f m show ?thesis
    by (simp add: binds_le_def get_function_addr_def)
next
  case (Some a)
  with resolve_alias_bound [OF Some, of S u] assms show ?thesis
    by (simp add: binds_le_refl)
qed

lemma resolve_function_line_le:
  assumes "resolve_function_line wop w1 w2 w3 name S l (st, cc, sz, u)
             = Some (Inr (l', (st', cc', sz', u')))"
  shows "binds_le st st' \<and> ir_type l' = ir_type l \<and> ir_content l' = ir_content l
         \<and> (ir_type l = ALIAS \<longrightarrow> get_alias_addr st' (ir_content l) \<noteq> None)"
proof (cases "ir_type l = INSTRUCTION")
  case True
  with assms obtain n where
    "resolve_instruction wop w1 w2 w3 name st cc l = Some (Inr (l', n))" and "st' = st"
    by (auto simp: resolve_function_line_def split: option.splits sum.splits)
  with resolve_instruction_Inr [OF this(1)] True show ?thesis
    by (auto simp: binds_le_refl)
next
  case False
  show ?thesis
  proof (cases "ir_type l = ALIAS")
    case True
    with assms have "resolve_alias S l st u = Inr (st', u')" and "l' = l"
      by (auto simp: resolve_function_line_def split: sum.splits)
    with resolve_alias_le [OF this(1)] show ?thesis by simp
  next
    case nal: False
    with False assms show ?thesis
      by (auto simp: resolve_function_line_def binds_le_refl)
  qed
qed

lemma resolve_memory_line_le:
  assumes "resolve_memory_line name S l (st, cd, sz, u) = Some (Inr (l', (st', cd', sz', u')))"
  shows "binds_le st st' \<and> ir_type l' = ir_type l \<and> ir_content l' = ir_content l
         \<and> (ir_type l = ALIAS \<longrightarrow> get_alias_addr st' (ir_content l) \<noteq> None)"
proof (cases "ir_type l = MEMORY_DATA")
  case True
  with assms show ?thesis
    by (auto simp: resolve_memory_line_def binds_le_refl split: sum.splits)
next
  case False
  show ?thesis
  proof (cases "ir_type l = ALIAS")
    case True
    with assms have "resolve_alias S l st u = Inr (st', u')" and "l' = l"
      by (auto simp: resolve_memory_line_def split: sum.splits)
    with resolve_alias_le [OF this(1)] show ?thesis by simp
  next
    case nal: False
    with False assms show ?thesis
      by (auto simp: resolve_memory_line_def binds_le_refl)
  qed
qed

text \<open>
  A loop whose every step can only add bindings: the last table extends the first, and
  what a step has established for its element still holds at the end.
\<close>

lemma for_each_bound:
  assumes run: "for_each body xs s = Some (Inr (ys, s'))"
    and step: "\<And>x s x' s'. body x s = Some (Inr (x', s')) \<Longrightarrow> binds_le (fst s) (fst s') \<and> P x' (fst s')"
    and mono: "\<And>x a b. P x a \<Longrightarrow> binds_le a b \<Longrightarrow> P x b"
  shows "binds_le (fst s) (fst s') \<and> (\<forall>y \<in> set ys. P y (fst s'))"
  using run
proof (induction xs arbitrary: s ys)
  case Nil
  then show ?case by (simp add: binds_le_refl)
next
  case (Cons x xs)
  from Cons.prems obtain x' s1 xs' where
    b: "body x s = Some (Inr (x', s1))" and r: "for_each body xs s1 = Some (Inr (xs', s'))"
    and ys: "ys = x' # xs'"
    by (rule for_each_Cons_Inr)
  from step [OF b] have 1: "binds_le (fst s) (fst s1)" "P x' (fst s1)" by simp_all
  from Cons.IH [OF r] have 2: "binds_le (fst s1) (fst s')" "\<forall>y \<in> set xs'. P y (fst s')"
    by simp_all
  from 1 2 mono ys show ?case by (auto intro: binds_le_trans)
qed

lemma alias_bound_mono:
  "(ir_type l = ALIAS \<longrightarrow> get_alias_addr a (ir_content l) \<noteq> None) \<Longrightarrow> binds_le a b
   \<Longrightarrow> (ir_type l = ALIAS \<longrightarrow> get_alias_addr b (ir_content l) \<noteq> None)"
  by (auto simp: binds_le_def)

lemma function_lines_bound:
  assumes "for_each (resolve_function_line wop w1 w2 w3 name S) ls (st, cc, sz, u)
             = Some (Inr (ls', (st', t)))"
  shows "binds_le st st' \<and> aliases_bound st' ls'"
proof -
  have step: "\<And>x s x' s'. resolve_function_line wop w1 w2 w3 name S x s = Some (Inr (x', s'))
     \<Longrightarrow> binds_le (fst s) (fst s')
         \<and> (ir_type x' = ALIAS \<longrightarrow> get_alias_addr (fst s') (ir_content x') \<noteq> None)"
  proof -
    fix x s x' s'
    assume a: "resolve_function_line wop w1 w2 w3 name S x s = Some (Inr (x', s'))"
    obtain st cc sz u where s: "s = (st, cc, sz, u)" by (cases s) auto
    obtain st' cc' sz' u' where s': "s' = (st', cc', sz', u')" by (cases s') auto
    from resolve_function_line_le [OF a [unfolded s s']] s s'
    show "binds_le (fst s) (fst s')
         \<and> (ir_type x' = ALIAS \<longrightarrow> get_alias_addr (fst s') (ir_content x') \<noteq> None)"
      by simp
  qed
  from for_each_bound [OF assms, of "\<lambda>l a. ir_type l = ALIAS \<longrightarrow> get_alias_addr a (ir_content l) \<noteq> None",
      OF step alias_bound_mono]
  show ?thesis by (simp add: aliases_bound_def)
qed

lemma memory_lines_bound:
  assumes "for_each (resolve_memory_line name S) ls (st, cd, sz, u) = Some (Inr (ls', (st', t)))"
  shows "binds_le st st' \<and> aliases_bound st' ls'"
proof -
  have step: "\<And>x s x' s'. resolve_memory_line name S x s = Some (Inr (x', s'))
     \<Longrightarrow> binds_le (fst s) (fst s')
         \<and> (ir_type x' = ALIAS \<longrightarrow> get_alias_addr (fst s') (ir_content x') \<noteq> None)"
  proof -
    fix x s x' s'
    assume a: "resolve_memory_line name S x s = Some (Inr (x', s'))"
    obtain st cc sz u where s: "s = (st, cc, sz, u)" by (cases s) auto
    obtain st' cc' sz' u' where s': "s' = (st', cc', sz', u')" by (cases s') auto
    from resolve_memory_line_le [OF a [unfolded s s']] s s'
    show "binds_le (fst s) (fst s')
         \<and> (ir_type x' = ALIAS \<longrightarrow> get_alias_addr (fst s') (ir_content x') \<noteq> None)"
      by simp
  qed
  from for_each_bound [OF assms, of "\<lambda>l a. ir_type l = ALIAS \<longrightarrow> get_alias_addr a (ir_content l) \<noteq> None",
      OF step alias_bound_mono]
  show ?thesis by (simp add: aliases_bound_def)
qed

subsection \<open>After a pass every symbol of the blocks is bound\<close>

lemma aliases_bound_mono: "aliases_bound a ls \<Longrightarrow> binds_le a b \<Longrightarrow> aliases_bound b ls"
  by (auto simp: aliases_bound_def binds_le_def)

lemma block_bound_mono: "block_bound a b \<Longrightarrow> binds_le a c \<Longrightarrow> block_bound c b"
  using aliases_bound_mono by (auto simp: block_bound_def binds_le_def)

lemma define_function_unbound:
  assumes "get_function_addr st n = None"
  shows "\<exists>st'. define_function st n (Some a) = Inr st' \<and> get_function_addr st' n = Some a
           \<and> binds_le st st'"
proof -
  let ?st' = "st\<lparr>function_map := (function_map st)(n \<mapsto> Some a)\<rparr>"
  have d: "define_function st n (Some a) = Inr ?st'"
    using assms by (simp add: define_function_def)
  have g: "get_function_addr ?st' n = Some a"
    by (simp add: get_function_addr_def get_or_None_def)
  have "get_function_addr ?st' m = Some v" if "get_function_addr st m = Some v" for m v
  proof -
    from that assms have "m \<noteq> n" by auto
    with that show ?thesis by (simp add: get_function_addr_def get_or_None_def)
  qed
  then have "binds_le st ?st'" by (simp add: binds_le_def get_alias_addr_def)
  with d g show ?thesis by blast
qed

lemma resolve_block_bound:
  assumes "resolve_block wop w1 w2 w3 b (st, cc, cd, u) = Some (Inr (b', (st', t)))"
  shows "binds_le st st' \<and> block_bound st' b'"
proof -
  consider (f) "b_type b = FUNCTION" | (m) "b_type b = MEMORY" | (o) "b_type b = MACRO"
    by (cases "b_type b") auto
  then show ?thesis
  proof cases
    case f
    from assms f obtain st1 S ls' st2 t2 where
      h: "(case get_function_addr st (b_name b) of
             None \<Rightarrow> (case define_function st (b_name b) (Some cc) of
                         Inl e \<Rightarrow> Inl e | Inr st'' \<Rightarrow> Inr (st'', cc))
           | Some a \<Rightarrow> Inr (st, a)) = Inr (st1, S)"
      and r: "for_each (resolve_function_line wop w1 w2 w3 (b_name b) S) (b_content b)
            (st1, cc, 0, u) = Some (Inr (ls', (st2, t2)))"
      and b': "b_content b' = ls'" "b_type b' = b_type b" "b_name b' = b_name b"
      and st': "st' = st2"
      unfolding resolve_block_def Let_def
      by (auto split: option.splits sum.splits prod.splits)
    have 1: "binds_le st st1 \<and> get_function_addr st1 (b_name b) \<noteq> None"
    proof (cases "get_function_addr st (b_name b)")
      case None
      with h define_function_unbound [OF None, of cc] show ?thesis by auto
    next
      case (Some a)
      with h show ?thesis by (auto simp: binds_le_refl)
    qed
    from function_lines_bound [OF r] have 2: "binds_le st1 st2" "aliases_bound st2 ls'"
      by simp_all
    from 1 2(1) have "get_function_addr st2 (b_name b) \<noteq> None" by (auto simp: binds_le_def)
    with 1 2 b' f st' show ?thesis
      by (auto simp: block_bound_def intro: binds_le_trans)
  next
    case m
    from assms m obtain ls' st2 t2 where
      r: "for_each (resolve_memory_line (b_name b) cd) (b_content b)
            (st, cd, 0, u) = Some (Inr (ls', (st2, t2)))"
      and b': "b_content b' = ls'" "b_type b' = b_type b"
      and st': "st' = st2"
      unfolding resolve_block_def Let_def
      by (auto split: option.splits sum.splits prod.splits)
    from memory_lines_bound [OF r] b' m st' show ?thesis
      by (auto simp: block_bound_def)
  next
    case o
    with assms have "b' = b" "st' = st" by (simp_all add: resolve_block_def)
    with o show ?thesis by (simp add: block_bound_def binds_le_refl)
  qed
qed

lemma resolve_symbols_saturated:
  assumes "resolve_symbols blocks st cs ds wop w1 w2 w3 = Some (Inr (blocks', st', upd))"
  shows "saturated st' blocks'"
proof -
  from assms obtain t where
    r: "for_each (resolve_block wop w1 w2 w3) blocks (st, cs, ds, False)
          = Some (Inr (blocks', (st', t)))"
    unfolding resolve_symbols_def by (auto split: option.splits sum.splits prod.splits)
  have step: "\<And>x s x' s'. resolve_block wop w1 w2 w3 x s = Some (Inr (x', s'))
     \<Longrightarrow> binds_le (fst s) (fst s') \<and> block_bound (fst s') x'"
  proof -
    fix x s x' s'
    assume a: "resolve_block wop w1 w2 w3 x s = Some (Inr (x', s'))"
    obtain st cc cd u where s: "s = (st, cc, cd, u)" by (cases s) auto
    obtain st' t' where s': "s' = (st', t')" by (cases s') auto
    from resolve_block_bound [OF a [unfolded s s']] s s'
    show "binds_le (fst s) (fst s') \<and> block_bound (fst s') x'" by simp
  qed
  from for_each_bound [OF r, of "\<lambda>b a. block_bound a b", OF step block_bound_mono]
  show ?thesis by (simp add: saturated_def)
qed

subsection \<open>A pass with every symbol bound, run again\<close>

lemma resolve_instruction_rerun:
  assumes "resolve_instruction wop w1 w2 w3 name st cc l = Some (Inr (l', n))"
  shows "resolve_instruction wop w1 w2 w3 name st cc l' = Some (Inr (l', n))"
proof -
  from resolve_instruction_Inr [OF assms] have c: "ir_content l' = ir_content l" by auto
  from assms obtain tok toks opc bits p1 p2 p3 ws where
    sp: "py_split (ir_content l) = tok # toks" and opc: "opc = py_lower tok"
    and om: "opcode_map opc = Some bits" and len: "int (length bits) = wop"
    and ps: "parse_three_params toks st = Inr [p1, p2, p3]"
    and e: "expand_instr bits p1 p2 p3 wop w1 w2 w3 = Some (Inr ws)"
    and l: "l' = l\<lparr>opcode := Some opc, param1 := Some p1, param2 := Some p2,
                    param3 := Some p3, func := Some name, expanded_bits := ws,
                    addresses := range_list cc (cc + int (length ws))\<rparr>"
    and n: "n = int (length ws)"
    unfolding resolve_instruction_def Let_def
    by (auto split: list.splits option.splits sum.splits if_splits)
  show ?thesis
    unfolding resolve_instruction_def Let_def c
    by (simp add: sp opc [symmetric] om len ps e n l)
qed

lemma function_line_rerun:
  assumes b: "ir_type l = ALIAS \<longrightarrow> get_alias_addr st (ir_content l) \<noteq> None"
    and r: "resolve_function_line wop w1 w2 w3 name S l (st, cc, sz, u) = Some (Inr (l', s'))"
  shows "\<exists>n. s' = (st, cc + n, sz + n, u)
           \<and> (\<forall>u2. resolve_function_line wop w1 w2 w3 name S l' (st, cc, sz, u2)
                      = Some (Inr (l', (st, cc + n, sz + n, u2))))"
proof (cases "ir_type l = INSTRUCTION")
  case True
  with r obtain n where i: "resolve_instruction wop w1 w2 w3 name st cc l = Some (Inr (l', n))"
    and s': "s' = (st, cc + n, sz + n, u)"
    by (auto simp: resolve_function_line_def split: option.splits sum.splits)
  from resolve_instruction_Inr [OF i] True have t: "ir_type l' = INSTRUCTION" by auto
  from resolve_instruction_rerun [OF i] t s' show ?thesis
    by (auto simp: resolve_function_line_def)
next
  case False
  show ?thesis
  proof (cases "ir_type l = ALIAS")
    case True
    with b obtain a where a: "get_alias_addr st (ir_content l) = Some a" by auto
    from True r resolve_alias_bound [OF a] have "l' = l" "s' = (st, cc, sz, u)"
      by (auto simp: resolve_function_line_def)
    with True resolve_alias_bound [OF a] show ?thesis
      by (intro exI [of _ 0]) (simp add: resolve_function_line_def)
  next
    case nal: False
    with False r have "l' = l" "s' = (st, cc, sz, u)"
      by (auto simp: resolve_function_line_def)
    with False nal show ?thesis
      by (intro exI [of _ 0]) (simp add: resolve_function_line_def)
  qed
qed

lemma memory_line_rerun:
  assumes b: "ir_type l = ALIAS \<longrightarrow> get_alias_addr st (ir_content l) \<noteq> None"
    and r: "resolve_memory_line name S l (st, cd, sz, u) = Some (Inr (l', s'))"
  shows "\<exists>n. s' = (st, cd + n, sz + n, u)
           \<and> (\<forall>u2. resolve_memory_line name S l' (st, cd, sz, u2)
                      = Some (Inr (l', (st, cd + n, sz + n, u2))))"
proof (cases "ir_type l = MEMORY_DATA")
  case True
  with r obtain ws where p: "parse_data_line (ir_content l) (ir_lineno l) st = Inr ws"
    and l: "l' = l\<lparr>mem := Some name, expanded_bits := ws,
                   addresses := range_list cd (cd + int (length ws))\<rparr>"
    and s': "s' = (st, cd + int (length ws), sz + int (length ws), u)"
    by (auto simp: resolve_memory_line_def split: sum.splits)
  from True p l s' show ?thesis
    by (intro exI [of _ "int (length ws)"]) (simp add: resolve_memory_line_def)
next
  case False
  show ?thesis
  proof (cases "ir_type l = ALIAS")
    case True
    with b obtain a where a: "get_alias_addr st (ir_content l) = Some a" by auto
    from True r resolve_alias_bound [OF a] have "l' = l" "s' = (st, cd, sz, u)"
      by (auto simp: resolve_memory_line_def)
    with True resolve_alias_bound [OF a] show ?thesis
      by (intro exI [of _ 0]) (simp add: resolve_memory_line_def)
  next
    case nal: False
    with False r have "l' = l" "s' = (st, cd, sz, u)"
      by (auto simp: resolve_memory_line_def)
    with False nal show ?thesis
      by (intro exI [of _ 0]) (simp add: resolve_memory_line_def)
  qed
qed

text \<open>
  A loop over lines or blocks whose symbols are bound: the table and \<open>updated\<close> come
  out as they went in, and the loop run again on its own output, from the same cursors,
  gives that output again.
\<close>

lemma for_each_rerun:
  assumes run: "for_each body xs (st, c, d, u) = Some (Inr (ys, s'))"
    and bound: "\<forall>x \<in> set xs. B x"
    and step: "\<And>x c d u x' s'. B x \<Longrightarrow> body x (st, c, d, u) = Some (Inr (x', s'))
        \<Longrightarrow> \<exists>c' d' u'. s' = (st, c', d', u')
              \<and> (\<forall>u2. body x' (st, c, d, u2) = Some (Inr (x', (st, c', d', u2))))"
  shows "\<exists>c' d' u'. s' = (st, c', d', u')
           \<and> (\<forall>u2. for_each body ys (st, c, d, u2) = Some (Inr (ys, (st, c', d', u2))))"
  using run bound
proof (induction xs arbitrary: c d u ys)
  case Nil
  then show ?case by auto
next
  case (Cons x xs)
  from Cons.prems(1) obtain x' s1 xs' where
    b: "body x (st, c, d, u) = Some (Inr (x', s1))"
    and r: "for_each body xs s1 = Some (Inr (xs', s'))" and ys: "ys = x' # xs'"
    by (rule for_each_Cons_Inr)
  from Cons.prems(2) have bx: "B x" and bxs: "\<forall>x \<in> set xs. B x" by simp_all
  from step [OF bx b] obtain c1 d1 u1 where s1: "s1 = (st, c1, d1, u1)"
    and again: "\<forall>u2. body x' (st, c, d, u2) = Some (Inr (x', (st, c1, d1, u2)))"
    by blast
  from Cons.IH [OF r [unfolded s1] bxs] obtain c' d' u' where s': "s' = (st, c', d', u')"
    and rest: "\<forall>u2. for_each body xs' (st, c1, d1, u2) = Some (Inr (xs', (st, c', d', u2)))"
    by blast
  from s' again rest ys show ?case by simp
qed

subsection \<open>The layout is a fixed point after two passes\<close>

lemma resolve_block_rerun:
  assumes bb: "block_bound st b"
    and r: "resolve_block wop w1 w2 w3 b (st, cc, cd, u) = Some (Inr (b', s'))"
  shows "\<exists>cc' cd' u'. s' = (st, cc', cd', u')
           \<and> (\<forall>u2. resolve_block wop w1 w2 w3 b' (st, cc, cd, u2)
                      = Some (Inr (b', (st, cc', cd', u2))))"
proof -
  consider (f) "b_type b = FUNCTION" | (m) "b_type b = MEMORY" | (o) "b_type b = MACRO"
    by (cases "b_type b") auto
  then show ?thesis
  proof cases
    case f
    with bb obtain a where a: "get_function_addr st (b_name b) = Some a"
      and al: "aliases_bound st (b_content b)"
      by (auto simp: block_bound_def)
    from r f a obtain ls' t where
      run: "for_each (resolve_function_line wop w1 w2 w3 (b_name b) a) (b_content b)
              (st, cc, 0, u) = Some (Inr (ls', t))"
      unfolding resolve_block_def Let_def
      by (auto split: option.splits sum.splits prod.splits)
    have bound: "\<forall>x \<in> set (b_content b).
        ir_type x = ALIAS \<longrightarrow> get_alias_addr st (ir_content x) \<noteq> None"
      using al by (simp add: aliases_bound_def)
    have step: "\<And>x c d u x' s'.
        ir_type x = ALIAS \<longrightarrow> get_alias_addr st (ir_content x) \<noteq> None \<Longrightarrow>
        resolve_function_line wop w1 w2 w3 (b_name b) a x (st, c, d, u) = Some (Inr (x', s'))
        \<Longrightarrow> \<exists>c' d' u'. s' = (st, c', d', u')
              \<and> (\<forall>u2. resolve_function_line wop w1 w2 w3 (b_name b) a x' (st, c, d, u2)
                         = Some (Inr (x', (st, c', d', u2))))"
      using function_line_rerun by blast
    have "\<exists>c' d' u'. t = (st, c', d', u')
        \<and> (\<forall>u2. for_each (resolve_function_line wop w1 w2 w3 (b_name b) a) ls'
                     (st, cc, 0, u2) = Some (Inr (ls', (st, c', d', u2))))"
      by (rule for_each_rerun [OF run bound]) (rule step)
    then obtain c' d' u' where t: "t = (st, c', d', u')"
      and again: "\<forall>u2. for_each (resolve_function_line wop w1 w2 w3 (b_name b) a) ls'
                     (st, cc, 0, u2) = Some (Inr (ls', (st, c', d', u2)))"
      by blast
    from r f a run t have b': "b' = b\<lparr>b_content := ls', start_addr := Some a, b_size := d'\<rparr>"
      and s': "s' = (st, c', cd, (if d' \<noteq> b_size b then True else u'))"
      unfolding resolve_block_def Let_def by simp_all
    have "resolve_block wop w1 w2 w3 b' (st, cc, cd, u2) = Some (Inr (b', (st, c', cd, u2)))"
      for u2
      unfolding resolve_block_def Let_def
      using f a again by (simp add: b')
    with s' show ?thesis by blast
  next
    case m
    with bb have al: "aliases_bound st (b_content b)" by (auto simp: block_bound_def)
    from r m obtain ls' t where
      run: "for_each (resolve_memory_line (b_name b) cd) (b_content b)
              (st, cd, 0, u) = Some (Inr (ls', t))"
      unfolding resolve_block_def Let_def
      by (auto split: option.splits sum.splits prod.splits)
    have bound: "\<forall>x \<in> set (b_content b).
        ir_type x = ALIAS \<longrightarrow> get_alias_addr st (ir_content x) \<noteq> None"
      using al by (simp add: aliases_bound_def)
    have step: "\<And>x c d u x' s'.
        ir_type x = ALIAS \<longrightarrow> get_alias_addr st (ir_content x) \<noteq> None \<Longrightarrow>
        resolve_memory_line (b_name b) cd x (st, c, d, u) = Some (Inr (x', s'))
        \<Longrightarrow> \<exists>c' d' u'. s' = (st, c', d', u')
              \<and> (\<forall>u2. resolve_memory_line (b_name b) cd x' (st, c, d, u2)
                         = Some (Inr (x', (st, c', d', u2))))"
      using memory_line_rerun by blast
    have "\<exists>c' d' u'. t = (st, c', d', u')
        \<and> (\<forall>u2. for_each (resolve_memory_line (b_name b) cd) ls'
                     (st, cd, 0, u2) = Some (Inr (ls', (st, c', d', u2))))"
      by (rule for_each_rerun [OF run bound]) (rule step)
    then obtain c' d' u' where t: "t = (st, c', d', u')"
      and again: "\<forall>u2. for_each (resolve_memory_line (b_name b) cd) ls'
                     (st, cd, 0, u2) = Some (Inr (ls', (st, c', d', u2)))"
      by blast
    from r m run t have b': "b' = b\<lparr>b_content := ls', start_addr := Some cd, b_size := d'\<rparr>"
      and s': "s' = (st, cc, c', (if d' \<noteq> b_size b then True else u'))"
      unfolding resolve_block_def Let_def by simp_all
    have "resolve_block wop w1 w2 w3 b' (st, cc, cd, u2) = Some (Inr (b', (st, cc, c', u2)))"
      for u2
      unfolding resolve_block_def Let_def
      using m again by (simp add: b')
    with s' show ?thesis by blast
  next
    case o
    with r have "b' = b" "s' = (st, cc, cd, u)" by (simp_all add: resolve_block_def)
    with o show ?thesis by (simp add: resolve_block_def)
  qed
qed

lemma resolve_symbols_rerun:
  assumes sat: "saturated st blocks"
    and r: "resolve_symbols blocks st cs ds wop w1 w2 w3 = Some (Inr (blocks', st', upd))"
  shows "st' = st
         \<and> resolve_symbols blocks' st cs ds wop w1 w2 w3 = Some (Inr (blocks', st, False))"
proof -
  from r obtain cc cd where
    run: "for_each (resolve_block wop w1 w2 w3) blocks (st, cs, ds, False)
            = Some (Inr (blocks', (st', cc, cd, upd)))"
    unfolding resolve_symbols_def by (auto split: option.splits sum.splits prod.splits)
  have bound: "\<forall>b \<in> set blocks. block_bound st b" using sat by (simp add: saturated_def)
  have step: "\<And>x c d u x' s'. block_bound st x \<Longrightarrow>
        resolve_block wop w1 w2 w3 x (st, c, d, u) = Some (Inr (x', s'))
        \<Longrightarrow> \<exists>c' d' u'. s' = (st, c', d', u')
              \<and> (\<forall>u2. resolve_block wop w1 w2 w3 x' (st, c, d, u2)
                         = Some (Inr (x', (st, c', d', u2))))"
    using resolve_block_rerun by blast
  have "\<exists>c' d' u'. (st', cc, cd, upd) = (st, c', d', u')
      \<and> (\<forall>u2. for_each (resolve_block wop w1 w2 w3) blocks' (st, cs, ds, u2)
                  = Some (Inr (blocks', (st, c', d', u2))))"
    by (rule for_each_rerun [OF run bound]) (rule step)
  then obtain c' d' u' where t: "(st', cc, cd, upd) = (st, c', d', u')"
    and again: "\<forall>u2. for_each (resolve_block wop w1 w2 w3) blocks' (st, cs, ds, u2)
                  = Some (Inr (blocks', (st, c', d', u2)))"
    by blast
  from t have "st' = st" by simp
  moreover from again have "resolve_symbols blocks' st cs ds wop w1 w2 w3
      = Some (Inr (blocks', st, False))"
    by (simp add: resolve_symbols_def)
  ultimately show ?thesis by simp
qed

lemma layout_fixed_point_general:
  assumes p1: "resolve_symbols blocks st cs ds wop w1 w2 w3 = Some (Inr (blocks1, st1, u1))"
    and p2: "resolve_symbols blocks1 st1 cs ds wop w1 w2 w3 = Some (Inr (blocks2, st2, u2))"
  shows "st2 = st1
         \<and> resolve_symbols blocks2 st2 cs ds wop w1 w2 w3 = Some (Inr (blocks2, st2, False))"
  using resolve_symbols_rerun [OF resolve_symbols_saturated [OF p1] p2] by simp

subsection \<open>A program laid out twice\<close>

lemma example_split: "py_split ''setreg 1 2 3'' = [''setreg'', ''1'', ''2'', ''3'']"
  by code_simp

lemma example_lower: "py_lower ''setreg'' = ''setreg''"
  by code_simp

lemma example_opcode: "opcode_map ''setreg'' = Some ''00001''"
  by code_simp

lemma example_params: "parse_three_params [''1'', ''2'', ''3''] st = Inr [1, 2, 3]"
proof -
  have "parse_one_param ''1'' st = Inr 1" "parse_one_param ''2'' st = Inr 2"
    "parse_one_param ''3'' st = Inr 3"
    by code_simp+
  then show ?thesis
    by (simp add: parse_three_params_cases param_or_zero_def)
qed

lemma example_arrays:
  "int_to_lsb_array 1 = [1]" "int_to_lsb_array 2 = [0, 1]" "int_to_lsb_array 3 = [1, 1]"
  by code_simp+

lemma example_word:
  "expand_word 5 14 5 6 [1, 0, 0, 0, 0] [1] [0, 1] [1, 1]
     = Inr (''10000011000100000000000000100001'', [], [], [], [])"
  by code_simp

lemma example_expand:
  "expand_instr ''00001'' 1 2 3 5 14 5 6 = Some (Inr [''10000011000100000000000000100001''])"
  unfolding expand_instr_def int_chars_setreg example_arrays
  apply (subst expand_loop.simps)
  apply (simp only: example_word sum.case prod.case)
  apply simp
  done

lemma example_data: "parse_data_line ''101'' 3 st = Inr [''10100000000000000000000000000000'']"
  by code_simp

lemma example_range: "range_list 0 1 = [0]" "range_list 80 81 = [80]"
  by code_simp+

lemma example_pass1:
  "resolve_symbols example_blocks0 example_symbols0 0 80 5 14 5 6
     = Some (Inr (example_blocks1, example_symbols1, True))"
  by (simp add: resolve_symbols_def resolve_block_def resolve_function_line_def
      resolve_memory_line_def resolve_instruction_def resolve_alias_def define_alias_def
      define_function_def get_function_addr_def get_alias_addr_def get_or_None_def
      example_blocks0_def example_blocks1_def example_symbols0_def example_symbols1_def
      alias_line_def example_split example_lower example_opcode example_params
      example_expand example_data example_range Let_def)

lemma example_pass2:
  "resolve_symbols example_blocks1 example_symbols1 0 80 5 14 5 6
     = Some (Inr (example_blocks1, example_symbols1, False))"
  by (simp add: resolve_symbols_def resolve_block_def resolve_function_line_def
      resolve_memory_line_def resolve_instruction_def resolve_alias_def define_alias_def
      define_function_def get_function_addr_def get_alias_addr_def get_or_None_def
      example_blocks1_def example_symbols1_def
      alias_line_def example_split example_lower example_opcode example_params
      example_expand example_data example_range Let_def)

subsection \<open>The two layout properties\<close>

text \<open>
  C8. After a call of \<open>resolve_symbols\<close> that returns, every line that produced
  output, an instruction of a function block or a data line of a memory block, has at
  least one word, as many addresses as words, and each address is 1 more than the one
  before. The lines keep their order and type, and every other line keeps the words and
  addresses it had before the call.
\<close>

theorem resolve_symbols_line_invariant:
  assumes "resolve_symbols blocks st cs ds wop w1 w2 w3 = Some (Inr (blocks', st', upd))"
  shows "list_all2 block_after_pass blocks blocks'
         \<and> (\<forall>b' \<in> set blocks'. \<forall>l' \<in> set (b_content b').
               produces_output (b_type b') l' \<longrightarrow> expanded_bits l' \<noteq> [] \<and> line_ok l')"
  using resolve_symbols_after [OF assms] after_pass_output by blast

theorem resolve_symbols_line_invariant_witness:
  "list_all2 block_after_pass example_blocks0 example_blocks1
   \<and> expanded_bits (b_content (example_blocks1 ! 0) ! 0) \<noteq> []
   \<and> line_ok (b_content (example_blocks1 ! 0) ! 0)
   \<and> expanded_bits (b_content (example_blocks1 ! 1) ! 0) \<noteq> []
   \<and> line_ok (b_content (example_blocks1 ! 1) ! 0)"
proof -
  note inv = resolve_symbols_line_invariant [OF example_pass1]
  have m: "example_blocks1 ! 0 \<in> set example_blocks1" "example_blocks1 ! 1 \<in> set example_blocks1"
    "b_content (example_blocks1 ! 0) ! 0 \<in> set (b_content (example_blocks1 ! 0))"
    "b_content (example_blocks1 ! 1) ! 0 \<in> set (b_content (example_blocks1 ! 1))"
    by (simp_all add: example_blocks1_def)
  have p: "produces_output (b_type (example_blocks1 ! 0)) (b_content (example_blocks1 ! 0) ! 0)"
    "produces_output (b_type (example_blocks1 ! 1)) (b_content (example_blocks1 ! 1) ! 0)"
    by (simp_all add: example_blocks1_def produces_output_def)
  from inv m p show ?thesis by blast
qed

text \<open>
  C2. Layout fixed point. When a call of \<open>resolve_symbols\<close> and the call after it, on
  the blocks and the symbol table that the first has left, with the same bases and field
  widths, have produced the same snapshot of \<open>(start_addr, size)\<close> pairs, one more
  call returns and produces that snapshot again. (It leaves the blocks and the symbol
  table exactly as they are and reports no update; the equality of the two snapshots is
  not needed for that, the second call after any call that returned is already at the
  fixed point.)
\<close>

theorem layout_fixed_point:
  assumes p1: "resolve_symbols blocks st cs ds wop w1 w2 w3 = Some (Inr (blocks1, st1, u1))"
    and p2: "resolve_symbols blocks1 st1 cs ds wop w1 w2 w3 = Some (Inr (blocks2, st2, u2))"
    and same: "snapshot blocks2 = snapshot blocks1"
  shows "\<exists>blocks3 st3 u3.
           resolve_symbols blocks2 st2 cs ds wop w1 w2 w3 = Some (Inr (blocks3, st3, u3))
           \<and> snapshot blocks3 = snapshot blocks2 \<and> snapshot blocks3 = snapshot blocks1
           \<and> blocks3 = blocks2 \<and> st3 = st2 \<and> \<not> u3"
  using layout_fixed_point_general [OF p1 p2] same by auto

theorem layout_fixed_point_witness:
  "resolve_symbols example_blocks0 example_symbols0 0 80 5 14 5 6
     = Some (Inr (example_blocks1, example_symbols1, True))
   \<and> resolve_symbols example_blocks1 example_symbols1 0 80 5 14 5 6
     = Some (Inr (example_blocks1, example_symbols1, False))
   \<and> (\<exists>blocks3 st3 u3.
         resolve_symbols example_blocks1 example_symbols1 0 80 5 14 5 6
           = Some (Inr (blocks3, st3, u3))
         \<and> snapshot blocks3 = snapshot example_blocks1 \<and> snapshot blocks3 = snapshot example_blocks1
         \<and> blocks3 = example_blocks1 \<and> st3 = example_symbols1 \<and> \<not> u3)"
  using layout_fixed_point [OF example_pass1 example_pass2 refl] example_pass1 example_pass2
  by blast

subsection \<open>The passes of main\<close>

text \<open>
  The loop of \<open>main\<close> leaves only at a fixed point: when it declares convergence, one
  more pass changes neither the blocks nor the symbol table.
\<close>

lemma layout_passes_fixed_point:
  assumes "layout_passes n prev blocks st cs ds wop w1 w2 w3 = Some (Inr (blocks', st'))"
    and "prev \<noteq> None \<longrightarrow> saturated st blocks"
  shows "resolve_symbols blocks' st' cs ds wop w1 w2 w3 = Some (Inr (blocks', st', False))"
  using assms
proof (induction n arbitrary: prev blocks st)
  case 0
  then show ?case by simp
next
  case (Suc n)
  from Suc.prems(1) obtain b1 st1 u1 where
    r: "resolve_symbols blocks st cs ds wop w1 w2 w3 = Some (Inr (b1, st1, u1))"
    by (auto split: option.splits sum.splits)
  note sat1 = resolve_symbols_saturated [OF r]
  show ?case
  proof (cases prev)
    case None
    with Suc.prems(1) r have
      "layout_passes n (Some (snapshot b1)) b1 st1 cs ds wop w1 w2 w3 = Some (Inr (blocks', st'))"
      by simp
    from Suc.IH [OF this] sat1 show ?thesis by simp
  next
    case (Some p)
    with Suc.prems(2) have sat: "saturated st blocks" by simp
    show ?thesis
    proof (cases "snapshot b1 = p")
      case True
      with Suc.prems(1) r Some have "blocks' = b1" "st' = st1" by simp_all
      with resolve_symbols_rerun [OF sat r] show ?thesis by simp
    next
      case False
      with Suc.prems(1) r Some have
        "layout_passes n (Some (snapshot b1)) b1 st1 cs ds wop w1 w2 w3
           = Some (Inr (blocks', st'))"
        by simp
      from Suc.IH [OF this] sat1 show ?thesis by simp
    qed
  qed
qed

lemma main_layout_fixed_point:
  assumes "layout_passes MAX_PASS None blocks st cs ds wop w1 w2 w3 = Some (Inr (blocks', st'))"
  shows "resolve_symbols blocks' st' cs ds wop w1 w2 w3 = Some (Inr (blocks', st', False))"
  using layout_passes_fixed_point [OF assms] by simp

section \<open>The aliases of a pass\<close>

subsection \<open>The bindings of the alias lines, one after the other\<close>

lemma first_binding_Nil: "first_binding g [] = g"
  by (rule ext) (simp add: first_binding_def split: option.splits)

lemma first_binding_append:
  "first_binding (first_binding g al1) al2 = first_binding g (al1 @ al2)"
  by (rule ext) (simp add: first_binding_def map_add_def split: option.splits)

text \<open>
  A loop whose every step extends the bound names by the bindings that its element asks
  for, and sets \<open>updated\<close> when it has bound one: the whole loop extends them by the
  bindings of all elements in order.
\<close>

lemma for_each_aliases:
  assumes run: "for_each body xs s = Some (Inr (ys, s'))"
    and step: "\<And>x s x' s'. body x s = Some (Inr (x', s')) \<Longrightarrow>
                 G s' = first_binding (G s) (A x') \<and> (U s \<longrightarrow> U s') \<and> (G s' \<noteq> G s \<longrightarrow> U s')"
  shows "G s' = first_binding (G s) (concat (map A ys)) \<and> (U s \<longrightarrow> U s')
         \<and> (G s' \<noteq> G s \<longrightarrow> U s')"
  using run
proof (induction xs arbitrary: s ys)
  case Nil
  then show ?case by (simp add: first_binding_Nil)
next
  case (Cons x xs)
  from Cons.prems obtain x' s1 xs' where
    b: "body x s = Some (Inr (x', s1))" and r: "for_each body xs s1 = Some (Inr (xs', s'))"
    and ys: "ys = x' # xs'"
    by (rule for_each_Cons_Inr)
  from step [OF b] have 1: "G s1 = first_binding (G s) (A x')" "U s \<longrightarrow> U s1"
    "G s1 \<noteq> G s \<longrightarrow> U s1"
    by simp_all
  from Cons.IH [OF r] have 2: "G s' = first_binding (G s1) (concat (map A xs'))"
    "U s1 \<longrightarrow> U s'" "G s' \<noteq> G s1 \<longrightarrow> U s'"
    by simp_all
  have g: "G s' = first_binding (G s) (concat (map A ys))"
    using 1(1) 2(1) ys by (simp add: first_binding_append)
  have u: "U s \<longrightarrow> U s'" using 1(2) 2(2) by simp
  have c: "G s' \<noteq> G s \<longrightarrow> U s'"
  proof
    assume n: "G s' \<noteq> G s"
    show "U s'"
    proof (cases "G s1 = G s")
      case True
      with n 2(3) show ?thesis by simp
    next
      case False
      with 1(3) 2(2) show ?thesis by simp
    qed
  qed
  from g u c show ?case by simp
qed

lemma resolve_alias_first_binding:
  assumes "resolve_alias S l st u = Inr (st', u')"
  shows "get_alias_addr st' = first_binding (get_alias_addr st) [(ir_content l, S + ir_lineno l)]
         \<and> (u \<longrightarrow> u') \<and> (get_alias_addr st' \<noteq> get_alias_addr st \<longrightarrow> u')"
proof (cases "get_alias_addr st (ir_content l)")
  case None
  from resolve_alias_unbound [OF None, of S u] assms obtain
    b: "get_alias_addr st' (ir_content l) = Some (S + ir_lineno l)"
    and o: "\<forall>a. a \<noteq> ir_content l \<longrightarrow> get_alias_addr st' a = get_alias_addr st a"
    and u': "u' = True"
    by auto
  have "get_alias_addr st' a = first_binding (get_alias_addr st) [(ir_content l, S + ir_lineno l)] a"
    for a
    using None b o by (cases "a = ir_content l") (simp_all add: first_binding_def split: option.splits)
  then show ?thesis using u' by auto
next
  case (Some v)
  with resolve_alias_bound [OF Some, of S u] assms have e: "st' = st" "u' = u" by simp_all
  have "get_alias_addr st a = first_binding (get_alias_addr st) [(ir_content l, S + ir_lineno l)] a"
    for a
    using Some by (simp add: first_binding_def split: option.splits)
  then show ?thesis using e by auto
qed

lemma resolve_function_line_aliases:
  assumes "resolve_function_line wop w1 w2 w3 name S l (st, cc, sz, u)
             = Some (Inr (l', (st', cc', sz', u')))"
  shows "line_key l' = line_key l
         \<and> get_alias_addr st' = first_binding (get_alias_addr st) (line_alias S l')
         \<and> (u \<longrightarrow> u') \<and> (get_alias_addr st' \<noteq> get_alias_addr st \<longrightarrow> u')"
proof (cases "ir_type l = INSTRUCTION")
  case True
  with assms obtain n where
    "resolve_instruction wop w1 w2 w3 name st cc l = Some (Inr (l', n))" and "st' = st" "u' = u"
    by (auto simp: resolve_function_line_def split: option.splits sum.splits)
  with resolve_instruction_Inr [OF this(1)] True show ?thesis
    by (auto simp: line_key_def line_alias_def first_binding_Nil)
next
  case False
  show ?thesis
  proof (cases "ir_type l = ALIAS")
    case True
    with assms have "resolve_alias S l st u = Inr (st', u')" and "l' = l"
      by (auto simp: resolve_function_line_def split: sum.splits)
    with resolve_alias_first_binding [OF this(1)] True show ?thesis
      by (simp add: line_alias_def)
  next
    case nal: False
    with False assms show ?thesis
      by (auto simp: resolve_function_line_def line_alias_def first_binding_Nil)
  qed
qed

lemma resolve_memory_line_aliases:
  assumes "resolve_memory_line name S l (st, cd, sz, u) = Some (Inr (l', (st', cd', sz', u')))"
  shows "line_key l' = line_key l
         \<and> get_alias_addr st' = first_binding (get_alias_addr st) (line_alias S l')
         \<and> (u \<longrightarrow> u') \<and> (get_alias_addr st' \<noteq> get_alias_addr st \<longrightarrow> u')"
proof (cases "ir_type l = MEMORY_DATA")
  case True
  with assms show ?thesis
    by (auto simp: resolve_memory_line_def line_key_def line_alias_def first_binding_Nil
        split: sum.splits)
next
  case False
  show ?thesis
  proof (cases "ir_type l = ALIAS")
    case True
    with assms have "resolve_alias S l st u = Inr (st', u')" and "l' = l"
      by (auto simp: resolve_memory_line_def split: sum.splits)
    with resolve_alias_first_binding [OF this(1)] True show ?thesis
      by (simp add: line_alias_def)
  next
    case nal: False
    with False assms show ?thesis
      by (auto simp: resolve_memory_line_def line_alias_def first_binding_Nil)
  qed
qed

lemma function_lines_aliases:
  assumes r: "for_each (resolve_function_line wop w1 w2 w3 name S) ls (st, cc, sz, u)
             = Some (Inr (ls', (st', cc', sz', u')))"
  shows "map line_key ls' = map line_key ls
         \<and> get_alias_addr st' = first_binding (get_alias_addr st) (concat (map (line_alias S) ls'))
         \<and> (u \<longrightarrow> u') \<and> (get_alias_addr st' \<noteq> get_alias_addr st \<longrightarrow> u')"
proof -
  have step: "\<And>x s x' s'. resolve_function_line wop w1 w2 w3 name S x s = Some (Inr (x', s'))
     \<Longrightarrow> line_key x' = line_key x
         \<and> get_alias_addr (fst s') = first_binding (get_alias_addr (fst s)) (line_alias S x')
         \<and> (snd (snd (snd s)) \<longrightarrow> snd (snd (snd s')))
         \<and> (get_alias_addr (fst s') \<noteq> get_alias_addr (fst s) \<longrightarrow> snd (snd (snd s')))"
  proof -
    fix x s x' s'
    assume a: "resolve_function_line wop w1 w2 w3 name S x s = Some (Inr (x', s'))"
    obtain st cc sz u where s: "s = (st, cc, sz, u)" by (cases s) auto
    obtain st' cc' sz' u' where s': "s' = (st', cc', sz', u')" by (cases s') auto
    from resolve_function_line_aliases [OF a [unfolded s s']] s s'
    show "line_key x' = line_key x
         \<and> get_alias_addr (fst s') = first_binding (get_alias_addr (fst s)) (line_alias S x')
         \<and> (snd (snd (snd s)) \<longrightarrow> snd (snd (snd s')))
         \<and> (get_alias_addr (fst s') \<noteq> get_alias_addr (fst s) \<longrightarrow> snd (snd (snd s')))"
      by simp
  qed
  from for_each_list_all2 [OF r, of "\<lambda>x x'. line_key x' = line_key x"] step
  have "list_all2 (\<lambda>x x'. line_key x' = line_key x) ls ls'" by blast
  then have k: "map line_key ls' = map line_key ls"
    by (induction rule: list_all2_induct) simp_all
  from for_each_aliases [OF r, of "\<lambda>s. get_alias_addr (fst s)" "line_alias S"
      "\<lambda>s. snd (snd (snd s))"] step
  have "get_alias_addr st' = first_binding (get_alias_addr st) (concat (map (line_alias S) ls'))
         \<and> (u \<longrightarrow> u') \<and> (get_alias_addr st' \<noteq> get_alias_addr st \<longrightarrow> u')"
    by simp
  with k show ?thesis by simp
qed

lemma memory_lines_aliases:
  assumes r: "for_each (resolve_memory_line name S) ls (st, cd, sz, u)
             = Some (Inr (ls', (st', cd', sz', u')))"
  shows "map line_key ls' = map line_key ls
         \<and> get_alias_addr st' = first_binding (get_alias_addr st) (concat (map (line_alias S) ls'))
         \<and> (u \<longrightarrow> u') \<and> (get_alias_addr st' \<noteq> get_alias_addr st \<longrightarrow> u')"
proof -
  have step: "\<And>x s x' s'. resolve_memory_line name S x s = Some (Inr (x', s'))
     \<Longrightarrow> line_key x' = line_key x
         \<and> get_alias_addr (fst s') = first_binding (get_alias_addr (fst s)) (line_alias S x')
         \<and> (snd (snd (snd s)) \<longrightarrow> snd (snd (snd s')))
         \<and> (get_alias_addr (fst s') \<noteq> get_alias_addr (fst s) \<longrightarrow> snd (snd (snd s')))"
  proof -
    fix x s x' s'
    assume a: "resolve_memory_line name S x s = Some (Inr (x', s'))"
    obtain st cc sz u where s: "s = (st, cc, sz, u)" by (cases s) auto
    obtain st' cc' sz' u' where s': "s' = (st', cc', sz', u')" by (cases s') auto
    from resolve_memory_line_aliases [OF a [unfolded s s']] s s'
    show "line_key x' = line_key x
         \<and> get_alias_addr (fst s') = first_binding (get_alias_addr (fst s)) (line_alias S x')
         \<and> (snd (snd (snd s)) \<longrightarrow> snd (snd (snd s')))
         \<and> (get_alias_addr (fst s') \<noteq> get_alias_addr (fst s) \<longrightarrow> snd (snd (snd s')))"
      by simp
  qed
  from for_each_list_all2 [OF r, of "\<lambda>x x'. line_key x' = line_key x"] step
  have "list_all2 (\<lambda>x x'. line_key x' = line_key x) ls ls'" by blast
  then have k: "map line_key ls' = map line_key ls"
    by (induction rule: list_all2_induct) simp_all
  from for_each_aliases [OF r, of "\<lambda>s. get_alias_addr (fst s)" "line_alias S"
      "\<lambda>s. snd (snd (snd s))"] step
  have "get_alias_addr st' = first_binding (get_alias_addr st) (concat (map (line_alias S) ls'))
         \<and> (u \<longrightarrow> u') \<and> (get_alias_addr st' \<noteq> get_alias_addr st \<longrightarrow> u')"
    by simp
  with k show ?thesis by simp
qed

lemma resolve_block_aliases:
  assumes "resolve_block wop w1 w2 w3 b (st, cc, cd, u) = Some (Inr (b', (st', cc', cd', u')))"
  shows "laid_out b b'
         \<and> get_alias_addr st' = first_binding (get_alias_addr st) (alias_lines_of b')
         \<and> (u \<longrightarrow> u') \<and> (get_alias_addr st' \<noteq> get_alias_addr st \<longrightarrow> u')"
proof -
  consider (f) "b_type b = FUNCTION" | (m) "b_type b = MEMORY" | (o) "b_type b = MACRO"
    by (cases "b_type b") auto
  then show ?thesis
  proof cases
    case f
    from assms f obtain st1 S ls' st2 c2 z2 u2 where
      h: "(case get_function_addr st (b_name b) of
             None \<Rightarrow> (case define_function st (b_name b) (Some cc) of
                         Inl e \<Rightarrow> Inl e | Inr st'' \<Rightarrow> Inr (st'', cc))
           | Some a \<Rightarrow> Inr (st, a)) = Inr (st1, S)"
      and r: "for_each (resolve_function_line wop w1 w2 w3 (b_name b) S) (b_content b)
            (st1, cc, 0, u) = Some (Inr (ls', (st2, c2, z2, u2)))"
      and b': "b_content b' = ls'" "b_type b' = b_type b" "b_name b' = b_name b"
        "start_addr b' = Some S"
      and st': "st' = st2" and u': "u2 \<longrightarrow> u'"
      unfolding resolve_block_def Let_def
      by (auto split: option.splits sum.splits prod.splits if_splits)
    have 1: "get_alias_addr st1 = get_alias_addr st"
      using h by (auto simp: define_function_def get_alias_addr_def
          split: option.splits sum.splits if_splits)
    from function_lines_aliases [OF r] 1 b' f st' u' show ?thesis
      by (auto simp: laid_out_def alias_lines_of_def)
  next
    case m
    from assms m obtain ls' st2 c2 z2 u2 where
      r: "for_each (resolve_memory_line (b_name b) cd) (b_content b)
            (st, cd, 0, u) = Some (Inr (ls', (st2, c2, z2, u2)))"
      and b': "b_content b' = ls'" "b_type b' = b_type b" "b_name b' = b_name b"
        "start_addr b' = Some cd"
      and st': "st' = st2" and u': "u2 \<longrightarrow> u'"
      unfolding resolve_block_def Let_def
      by (auto split: option.splits sum.splits prod.splits if_splits)
    from memory_lines_aliases [OF r] b' m st' u' show ?thesis
      by (auto simp: laid_out_def alias_lines_of_def)
  next
    case o
    with assms have "b' = b" "st' = st" "u' = u" by (simp_all add: resolve_block_def)
    with o show ?thesis by (simp add: laid_out_def alias_lines_of_def first_binding_Nil)
  qed
qed

lemma resolve_symbols_aliases:
  assumes "resolve_symbols blocks st cs ds wop w1 w2 w3 = Some (Inr (blocks', st', upd))"
  shows "list_all2 laid_out blocks blocks'
         \<and> get_alias_addr st' = first_binding (get_alias_addr st) (pass_aliases blocks')
         \<and> (get_alias_addr st' \<noteq> get_alias_addr st \<longrightarrow> upd)"
proof -
  from assms obtain cc' cd' where
    r: "for_each (resolve_block wop w1 w2 w3) blocks (st, cs, ds, False)
          = Some (Inr (blocks', (st', cc', cd', upd)))"
    unfolding resolve_symbols_def by (auto split: option.splits sum.splits prod.splits)
  have step: "\<And>x s x' s'. resolve_block wop w1 w2 w3 x s = Some (Inr (x', s'))
     \<Longrightarrow> laid_out x x'
         \<and> get_alias_addr (fst s') = first_binding (get_alias_addr (fst s)) (alias_lines_of x')
         \<and> (snd (snd (snd s)) \<longrightarrow> snd (snd (snd s')))
         \<and> (get_alias_addr (fst s') \<noteq> get_alias_addr (fst s) \<longrightarrow> snd (snd (snd s')))"
  proof -
    fix x s x' s'
    assume a: "resolve_block wop w1 w2 w3 x s = Some (Inr (x', s'))"
    obtain st cc sz u where s: "s = (st, cc, sz, u)" by (cases s) auto
    obtain st' cc' sz' u' where s': "s' = (st', cc', sz', u')" by (cases s') auto
    from resolve_block_aliases [OF a [unfolded s s']] s s'
    show "laid_out x x'
         \<and> get_alias_addr (fst s') = first_binding (get_alias_addr (fst s)) (alias_lines_of x')
         \<and> (snd (snd (snd s)) \<longrightarrow> snd (snd (snd s')))
         \<and> (get_alias_addr (fst s') \<noteq> get_alias_addr (fst s) \<longrightarrow> snd (snd (snd s')))"
      by simp
  qed
  from for_each_list_all2 [OF r, of laid_out] step
  have k: "list_all2 laid_out blocks blocks'" by blast
  from for_each_aliases [OF r, of "\<lambda>s. get_alias_addr (fst s)" alias_lines_of
      "\<lambda>s. snd (snd (snd s))"] step
  have "get_alias_addr st' = first_binding (get_alias_addr st) (pass_aliases blocks')
         \<and> (get_alias_addr st' \<noteq> get_alias_addr st \<longrightarrow> upd)"
    by (simp add: pass_aliases_def)
  with k show ?thesis by simp
qed

subsection \<open>Where the blocks start\<close>

lemma for_each_invariant:
  assumes run: "for_each body xs s = Some (Inr (ys, s'))"
    and step: "\<And>x s x' s'. body x s = Some (Inr (x', s')) \<Longrightarrow> I s \<Longrightarrow> I s'"
    and init: "I s"
  shows "I s'"
  using run init
proof (induction xs arbitrary: s ys)
  case Nil
  then show ?case by simp
next
  case (Cons x xs)
  from Cons.prems(1) obtain x' s1 xs' where
    b: "body x s = Some (Inr (x', s1))" and r: "for_each body xs s1 = Some (Inr (xs', s'))"
    by (rule for_each_Cons_Inr)
  from step [OF b Cons.prems(2)] Cons.IH [OF r] show ?case by simp
qed

lemma memory_lines_cursor:
  assumes r: "for_each (resolve_memory_line name S) ls (st, cd, 0, u)
             = Some (Inr (ls', (st', cd', sz', u')))"
  shows "cd' = cd + sz'"
proof -
  have step: "\<And>x s x' s'. resolve_memory_line name S x s = Some (Inr (x', s'))
     \<Longrightarrow> fst (snd s) - fst (snd (snd s)) = cd \<Longrightarrow> fst (snd s') - fst (snd (snd s')) = cd"
    by (auto simp: resolve_memory_line_def split: if_splits sum.splits prod.splits)
  from for_each_invariant [OF r, of "\<lambda>s. fst (snd s) - fst (snd (snd s)) = cd"] step
  show ?thesis by simp
qed

lemma resolve_block_memory_start:
  assumes "resolve_block wop w1 w2 w3 b (st, cc, cd, u) = Some (Inr (b', (st', cc', cd', u')))"
  shows "b_type b' = b_type b
         \<and> (if b_type b = MEMORY then start_addr b' = Some cd \<and> cd' = cd + b_size b'
             else cd' = cd)"
proof -
  consider (f) "b_type b = FUNCTION" | (m) "b_type b = MEMORY" | (o) "b_type b = MACRO"
    by (cases "b_type b") auto
  then show ?thesis
  proof cases
    case f
    with assms show ?thesis
      unfolding resolve_block_def Let_def
      by (auto split: option.splits sum.splits prod.splits if_splits)
  next
    case m
    from assms m obtain ls' st2 c2 z2 u2 where
      r: "for_each (resolve_memory_line (b_name b) cd) (b_content b)
            (st, cd, 0, u) = Some (Inr (ls', (st2, c2, z2, u2)))"
      and b': "b_type b' = b_type b" "start_addr b' = Some cd" "b_size b' = z2" "cd' = c2"
      unfolding resolve_block_def Let_def
      by (auto split: option.splits sum.splits prod.splits if_splits)
    from memory_lines_cursor [OF r] b' m show ?thesis by simp
  next
    case o
    with assms show ?thesis by (simp add: resolve_block_def)
  qed
qed

lemma resolve_blocks_memory_starts:
  assumes "for_each (resolve_block wop w1 w2 w3) bs (st, cc, cd, u) = Some (Inr (bs', t))"
  shows "memory_starts cd bs'"
  using assms
proof (induction bs arbitrary: st cc cd u bs')
  case Nil
  then show ?case by simp
next
  case (Cons b bs)
  from Cons.prems obtain b' s1 xs' where
    h: "resolve_block wop w1 w2 w3 b (st, cc, cd, u) = Some (Inr (b', s1))"
    and r: "for_each (resolve_block wop w1 w2 w3) bs s1 = Some (Inr (xs', t))"
    and ys: "bs' = b' # xs'"
    by (rule for_each_Cons_Inr)
  obtain st1 cc1 cd1 u1 where s1: "s1 = (st1, cc1, cd1, u1)" by (cases s1) auto
  from resolve_block_memory_start [OF h [unfolded s1]]
  have t: "b_type b' = b_type b"
    and c: "if b_type b = MEMORY then start_addr b' = Some cd \<and> cd1 = cd + b_size b'
            else cd1 = cd"
    by simp_all
  from Cons.IH [OF r [unfolded s1]] have "memory_starts cd1 xs'" .
  with t c ys show ?case by (simp split: if_splits)
qed

lemma resolve_symbols_memory_starts:
  assumes "resolve_symbols blocks st cs ds wop w1 w2 w3 = Some (Inr (blocks', st', upd))"
  shows "memory_starts ds blocks'"
proof -
  from assms obtain t where
    r: "for_each (resolve_block wop w1 w2 w3) blocks (st, cs, ds, False)
          = Some (Inr (blocks', t))"
    unfolding resolve_symbols_def by (auto split: option.splits sum.splits prod.splits)
  from resolve_blocks_memory_starts [OF r] show ?thesis .
qed

lemma resolve_block_function_start:
  assumes "resolve_block wop w1 w2 w3 b (st, cc, cd, u) = Some (Inr (b', (st', t)))"
  shows "b_type b' = FUNCTION \<longrightarrow>
           (\<exists>S. start_addr b' = Some S \<and> get_function_addr st' (b_name b') = Some S)"
proof (cases "b_type b = FUNCTION")
  case f: True
  from assms f obtain st1 S ls' st2 t2 where
    h: "(case get_function_addr st (b_name b) of
           None \<Rightarrow> (case define_function st (b_name b) (Some cc) of
                       Inl e \<Rightarrow> Inl e | Inr st'' \<Rightarrow> Inr (st'', cc))
         | Some a \<Rightarrow> Inr (st, a)) = Inr (st1, S)"
    and r: "for_each (resolve_function_line wop w1 w2 w3 (b_name b) S) (b_content b)
          (st1, cc, 0, u) = Some (Inr (ls', (st2, t2)))"
    and b': "b_name b' = b_name b" "start_addr b' = Some S"
    and st': "st' = st2"
    unfolding resolve_block_def Let_def
    by (auto split: option.splits sum.splits prod.splits)
  have 1: "get_function_addr st1 (b_name b) = Some S"
  proof (cases "get_function_addr st (b_name b)")
    case None
    with h define_function_unbound [OF None, of cc] show ?thesis by auto
  next
    case (Some a)
    with h show ?thesis by auto
  qed
  from function_lines_bound [OF r] have "binds_le st1 st2" by simp
  with 1 have "get_function_addr st2 (b_name b) = Some S" by (simp add: binds_le_def)
  with b' st' show ?thesis by simp
next
  case False
  with assms have "b_type b' = b_type b"
    unfolding resolve_block_def Let_def
    by (auto split: option.splits sum.splits prod.splits if_splits)
  with False show ?thesis by simp
qed

lemma resolve_symbols_function_starts:
  assumes "resolve_symbols blocks st cs ds wop w1 w2 w3 = Some (Inr (blocks', st', upd))"
  shows "function_starts st' blocks'"
proof -
  from assms obtain t where
    r: "for_each (resolve_block wop w1 w2 w3) blocks (st, cs, ds, False)
          = Some (Inr (blocks', (st', t)))"
    unfolding resolve_symbols_def by (auto split: option.splits sum.splits prod.splits)
  let ?P = "\<lambda>b a. b_type b = FUNCTION \<longrightarrow>
              (\<exists>S. start_addr b = Some S \<and> get_function_addr a (b_name b) = Some S)"
  have step: "\<And>x s x' s'. resolve_block wop w1 w2 w3 x s = Some (Inr (x', s'))
     \<Longrightarrow> binds_le (fst s) (fst s') \<and> ?P x' (fst s')"
  proof -
    fix x s x' s'
    assume a: "resolve_block wop w1 w2 w3 x s = Some (Inr (x', s'))"
    obtain st cc cd u where s: "s = (st, cc, cd, u)" by (cases s) auto
    obtain st' t' where s': "s' = (st', t')" by (cases s') auto
    from resolve_block_bound [OF a [unfolded s s']]
      resolve_block_function_start [OF a [unfolded s s']] s s'
    show "binds_le (fst s) (fst s') \<and> ?P x' (fst s')" by simp
  qed
  have mono: "\<And>x a b. ?P x a \<Longrightarrow> binds_le a b \<Longrightarrow> ?P x b"
    by (auto simp: binds_le_def)
  have "binds_le (fst (st, cs, ds, False)) (fst (st', t))
        \<and> (\<forall>y \<in> set blocks'. ?P y (fst (st', t)))"
  proof (rule for_each_bound [OF r, where P = ?P])
    fix x s x' s'
    assume "resolve_block wop w1 w2 w3 x s = Some (Inr (x', s'))"
    then show "binds_le (fst s) (fst s') \<and> ?P x' (fst s')" by (rule step)
  next
    fix x a b
    assume "?P x a" "binds_le a b"
    then show "?P x b" by (rule mono)
  qed
  then show ?thesis by (auto simp: function_starts_def)
qed

subsection \<open>The pass and its aliases\<close>

lemma alias_example_data:
  "parse_data_line ''101'' k st = Inr [''10100000000000000000000000000000'']"
  by code_simp

lemma alias_example_range:
  "range_list 16 17 = [16]" "range_list 80 81 = [80]" "range_list 81 82 = [81]"
  "range_list 82 83 = [82]"
  by code_simp+

lemma alias_example_pass:
  "resolve_symbols alias_blocks0 alias_symbols0 16 80 5 14 5 6
     = Some (Inr (alias_blocks1, alias_symbols1, True))"
  by (simp add: resolve_symbols_def resolve_block_def resolve_function_line_def
      resolve_memory_line_def resolve_instruction_def resolve_alias_def define_alias_def
      define_function_def get_function_addr_def get_alias_addr_def get_or_None_def
      alias_blocks0_def alias_blocks1_def alias_symbols0_def alias_symbols1_def
      example_split example_lower example_opcode example_params
      example_expand alias_example_data alias_example_range Let_def)

lemma alias_example_lines:
  "pass_aliases alias_blocks1
     = [(''START'', 16), (''KEPT'', 16), (''FIRST'', 80), (''SECOND'', 81), (''FIRST'', 81),
        (''THIRD'', 82)]"
  by (simp add: pass_aliases_def alias_lines_of_def line_alias_def alias_blocks1_def)

text \<open>
  C7. A layout pass, a call of \<open>resolve_symbols\<close> that returns, and its alias lines.
  The pass leaves every function and memory block with a start address \<open>S\<close>, the
  address that the symbol table has for the function, or the data base plus the sizes of
  the memory blocks before; the lines keep their order, type, name and index. An alias
  line of such a block with the index \<open>k\<close> in its \<open>lineno\<close> field asks for its name at
  \<open>S + k\<close>, and \<open>pass_aliases\<close> lists what the lines ask for in the order of the pass.
  After the pass, a name that was bound before has the address it had; a name that was
  unbound has the address \<open>S + k\<close> of the first alias line with that name, the lines
  after it finding the name bound; a name without an alias line is still unbound. When
  the pass has bound a name, it reports an update.
\<close>

theorem resolve_symbols_alias_binding:
  assumes "resolve_symbols blocks st cs ds wop w1 w2 w3 = Some (Inr (blocks', st', upd))"
  shows "list_all2 laid_out blocks blocks'
         \<and> function_starts st' blocks' \<and> memory_starts ds blocks'
         \<and> (\<forall>a. get_alias_addr st' a =
                  (case get_alias_addr st a of
                     Some v \<Rightarrow> Some v
                   | None \<Rightarrow> map_of (pass_aliases blocks') a))
         \<and> ((\<exists>a. get_alias_addr st' a \<noteq> get_alias_addr st a) \<longrightarrow> upd)"
proof -
  from resolve_symbols_aliases [OF assms] have
    l: "list_all2 laid_out blocks blocks'"
    and g: "get_alias_addr st' = first_binding (get_alias_addr st) (pass_aliases blocks')"
    and u: "get_alias_addr st' \<noteq> get_alias_addr st \<longrightarrow> upd"
    by simp_all
  from g have "\<forall>a. get_alias_addr st' a =
                  (case get_alias_addr st a of
                     Some v \<Rightarrow> Some v
                   | None \<Rightarrow> map_of (pass_aliases blocks') a)"
    by (simp add: first_binding_def)
  moreover from u have "(\<exists>a. get_alias_addr st' a \<noteq> get_alias_addr st a) \<longrightarrow> upd"
    by auto
  ultimately show ?thesis
    using l resolve_symbols_function_starts [OF assms] resolve_symbols_memory_starts [OF assms]
    by simp
qed

theorem resolve_symbols_alias_binding_witness:
  "resolve_symbols alias_blocks0 alias_symbols0 16 80 5 14 5 6
     = Some (Inr (alias_blocks1, alias_symbols1, True))
   \<and> list_all2 laid_out alias_blocks0 alias_blocks1
   \<and> function_starts alias_symbols1 alias_blocks1 \<and> memory_starts 80 alias_blocks1
   \<and> pass_aliases alias_blocks1
       = [(''START'', 16), (''KEPT'', 16), (''FIRST'', 80), (''SECOND'', 81), (''FIRST'', 81),
          (''THIRD'', 82)]
   \<and> get_alias_addr alias_symbols0 ''KEPT'' = Some 7
   \<and> get_alias_addr alias_symbols1 ''KEPT'' = Some 7
   \<and> get_alias_addr alias_symbols1 ''START'' = Some 16
   \<and> get_alias_addr alias_symbols1 ''FIRST'' = Some 80
   \<and> get_alias_addr alias_symbols1 ''SECOND'' = Some 81
   \<and> get_alias_addr alias_symbols1 ''THIRD'' = Some 82
   \<and> get_alias_addr alias_symbols1 ''OTHER'' = None"
proof -
  note t = resolve_symbols_alias_binding [OF alias_example_pass]
  from t have l: "list_all2 laid_out alias_blocks0 alias_blocks1"
    "function_starts alias_symbols1 alias_blocks1" "memory_starts 80 alias_blocks1"
    by simp_all
  from t have g: "get_alias_addr alias_symbols1 a =
                  (case get_alias_addr alias_symbols0 a of
                     Some v \<Rightarrow> Some v
                   | None \<Rightarrow> map_of (pass_aliases alias_blocks1) a)" for a
    by simp
  have s: "get_alias_addr alias_symbols0 ''KEPT'' = Some 7"
    "get_alias_addr alias_symbols0 ''START'' = None"
    "get_alias_addr alias_symbols0 ''FIRST'' = None"
    "get_alias_addr alias_symbols0 ''SECOND'' = None"
    "get_alias_addr alias_symbols0 ''THIRD'' = None"
    "get_alias_addr alias_symbols0 ''OTHER'' = None"
    by (simp_all add: alias_symbols0_def get_alias_addr_def get_or_None_def)
  show ?thesis
    using l alias_example_pass s
      g [of "''KEPT''"] g [of "''START''"] g [of "''FIRST''"] g [of "''SECOND''"]
      g [of "''THIRD''"] g [of "''OTHER''"]
    by (simp add: alias_example_lines)
qed
end
